theory Spec2Isabelle
  imports Complex_Main
begin

section \<open>Inverted pendulum on a cart: data model\<close>

text \<open>
  The simulation script keeps every quantity in a JavaScript number. The embedding reads
  a number as a mathematical real: \<open>+\<close>, \<open>-\<close>, \<open>*\<close>, \<open>/\<close>, \<open>Math.sin\<close>, \<open>Math.cos\<close>,
  \<open>Math.abs\<close>, \<open>Math.sign\<close>, \<open>Math.min\<close> and \<open>Math.max\<close> are the operations of \<^typ>\<open>real\<close>.
  Rounding is outside this model. Overflow to an infinity and NaN are modelled where a
  claim depends on them: the controller is given a second time over JavaScript numbers
  (\<open>computeControl_js\<close>), and agrees with the real reading while nothing overflows.
\<close>

text \<open>The constant object \<open>PARAMS\<close>.\<close>

record params =
  M :: real
  m :: real
  l :: real
  g :: real
  dt :: real
  friction :: real

definition PARAMS :: params where
  "PARAMS = \<lparr>M = 1.0, m = 0.1, l = 0.5, g = 9.81, dt = 0.01, friction = 0.1\<rparr>"

text \<open>
  The four mechanical fields are the ones \<open>computeDerivatives\<close> destructures; the
  intermediate objects \<open>state2\<close>, \<open>state3\<close>, \<open>state4\<close> of \<open>rk4Step\<close> carry only these.
  The full \<open>state\<close> object extends them with \<open>integral\<close> and \<open>time\<close>.
\<close>

record mech =
  x :: real
  xDot :: real
  theta :: real
  thetaDot :: real

record sim_state = mech +
  integral :: real
  time :: real

text \<open>
  The object returned by \<open>computeDerivatives\<close>. Its source fields are \<open>xDot\<close>, \<open>xDDot\<close>,
  \<open>thetaDot\<close>, \<open>thetaDDot\<close>; the prefix \<open>k_\<close> keeps them apart from the state's fields.
\<close>

record derivs =
  k_xDot :: real
  k_xDDot :: real
  k_thetaDot :: real
  k_thetaDDot :: real

record gains =
  Kp :: real
  Ki :: real
  Kd :: real

section \<open>Physics engine\<close>

definition denom :: "params \<Rightarrow> real \<Rightarrow> real" where
  "denom p th = M p + m p - m p * cos th * cos th"

definition computeDerivatives :: "params \<Rightarrow> 'a mech_scheme \<Rightarrow> real \<Rightarrow> derivs" where
  "computeDerivatives p s u =
     (let sinTheta = sin (theta s);
          cosTheta = cos (theta s);
          dn = denom p (theta s);
          xDDot = (u - friction p * xDot s + m p * l p * thetaDot s * thetaDot s * sinTheta
                     - m p * g p * sinTheta * cosTheta) / dn;
          thetaDDot = ((M p + m p) * g p * sinTheta
                         - cosTheta * (u - friction p * xDot s
                                         + m p * l p * thetaDot s * thetaDot s * sinTheta))
                      / (l p * dn)
      in \<lparr>k_xDot = xDot s, k_xDDot = xDDot, k_thetaDot = thetaDot s, k_thetaDDot = thetaDDot\<rparr>)"

definition computeControl :: "gains \<Rightarrow> sim_state \<Rightarrow> real" where
  "computeControl gs s =
     (let u = Kp gs * theta s + Ki gs * integral s + Kd gs * thetaDot s
      in max (- 50) (min 50 u))"

definition rk4Step :: "params \<Rightarrow> sim_state \<Rightarrow> real \<Rightarrow> real \<Rightarrow> sim_state" where
  "rk4Step p s u h =
     (let k1 = computeDerivatives p s u;
          state2 = \<lparr>x = x s + k_xDot k1 * h / 2,
                    xDot = xDot s + k_xDDot k1 * h / 2,
                    theta = theta s + k_thetaDot k1 * h / 2,
                    thetaDot = thetaDot s + k_thetaDDot k1 * h / 2\<rparr>;
          k2 = computeDerivatives p state2 u;
          state3 = \<lparr>x = x s + k_xDot k2 * h / 2,
                    xDot = xDot s + k_xDDot k2 * h / 2,
                    theta = theta s + k_thetaDot k2 * h / 2,
                    thetaDot = thetaDot s + k_thetaDDot k2 * h / 2\<rparr>;
          k3 = computeDerivatives p state3 u;
          state4 = \<lparr>x = x s + k_xDot k3 * h,
                    xDot = xDot s + k_xDDot k3 * h,
                    theta = theta s + k_thetaDot k3 * h,
                    thetaDot = thetaDot s + k_thetaDDot k3 * h\<rparr>;
          k4 = computeDerivatives p state4 u
      in \<lparr>x = x s + (k_xDot k1 + 2 * k_xDot k2 + 2 * k_xDot k3 + k_xDot k4) * h / 6,
          xDot = xDot s + (k_xDDot k1 + 2 * k_xDDot k2 + 2 * k_xDDot k3 + k_xDDot k4) * h / 6,
          theta = theta s
                    + (k_thetaDot k1 + 2 * k_thetaDot k2 + 2 * k_thetaDot k3 + k_thetaDot k4)
                      * h / 6,
          thetaDot = thetaDot s
                    + (k_thetaDDot k1 + 2 * k_thetaDDot k2 + 2 * k_thetaDDot k3
                         + k_thetaDDot k4) * h / 6,
          integral = integral s + theta s * h,
          time = time s + h\<rparr>)"

section \<open>The controller over JavaScript numbers\<close>











section \<open>Driver: animation loop and event handlers\<close>

text \<open>
  The script's top-level variables, together with the two pieces of the host page the
  handlers act on: the label of the start button, and the queue of \<open>simulate\<close> callbacks
  registered with \<open>requestAnimationFrame\<close> (handles are positive, as in a browser).
  \<open>render\<close> and \<open>updateStateDisplay\<close> only draw and write text; they change none of
  these variables and are left out.
\<close>

record driver =
  state :: sim_state
  gains :: gains
  initialTheta :: real
  isRunning :: bool
  animationId :: "nat option"
  controlInput :: real
  startBtnText :: string
  frameQueue :: "nat list"
  nextHandle :: nat

definition requestAnimationFrame :: "driver \<Rightarrow> driver" where
  \<comment> \<open>\<open>animationId = requestAnimationFrame(simulate)\<close>\<close>
  "requestAnimationFrame d =
     d\<lparr>animationId := Some (nextHandle d),
       frameQueue := frameQueue d @ [nextHandle d],
       nextHandle := Suc (nextHandle d)\<rparr>"

definition cancelAnimationFrame :: "driver \<Rightarrow> driver" where
  \<comment> \<open>\<open>if (animationId) cancelAnimationFrame(animationId)\<close>\<close>
  "cancelAnimationFrame d =
     (case animationId d of
        None \<Rightarrow> d
      | Some h \<Rightarrow> if h = 0 then d else d\<lparr>frameQueue := removeAll h (frameQueue d)\<rparr>)"

definition stepsPerFrame :: nat where
  "stepsPerFrame = 2"

definition subStep :: "driver \<Rightarrow> driver" where
  "subStep d =
     (let u = computeControl (gains d) (state d)
      in d\<lparr>controlInput := u, state := rk4Step PARAMS (state d) u (dt PARAMS)\<rparr>)"

fun subSteps :: "nat \<Rightarrow> driver \<Rightarrow> driver" where
  "subSteps 0 d = d"
| "subSteps (Suc n) d = subSteps n (subStep d)"

definition boundCart :: "sim_state \<Rightarrow> sim_state" where
  "boundCart s = (if \<bar>x s\<bar> > 2.5 then s\<lparr>x := sgn (x s) * 2.5, xDot := 0\<rparr> else s)"

definition checkFallen :: "driver \<Rightarrow> driver" where
  "checkFallen d =
     (if \<bar>theta (state d)\<bar> > pi / 2
      then d\<lparr>isRunning := False, startBtnText := ''Start''\<rparr> else d)"

definition simulate :: "driver \<Rightarrow> driver" where
  "simulate d =
     (if \<not> isRunning d then d
      else let d1 = subSteps stepsPerFrame d;
               d2 = d1\<lparr>state := boundCart (state d1)\<rparr>;
               d3 = checkFallen d2
           in if isRunning d3 then requestAnimationFrame d3 else d3)"

definition resetState :: "driver \<Rightarrow> driver" where
  "resetState d =
     d\<lparr>state := \<lparr>x = 0, xDot = 0, theta = initialTheta d, thetaDot = 0,
                  integral = 0, time = 0\<rparr>,
       controlInput := 0\<rparr>"

datatype event =
    KpInput real
  | KiInput real
  | KdInput real
  | Theta0Input real
  | StartClick
  | ResetClick
  | Frame

fun handle :: "event \<Rightarrow> driver \<Rightarrow> driver" where
  "handle (KpInput v) d = d\<lparr>gains := (gains d)\<lparr>Kp := v\<rparr>\<rparr>"
| "handle (KiInput v) d = d\<lparr>gains := (gains d)\<lparr>Ki := v\<rparr>\<rparr>"
| "handle (KdInput v) d = d\<lparr>gains := (gains d)\<lparr>Kd := v\<rparr>\<rparr>"
| "handle (Theta0Input deg) d =
     (let d1 = d\<lparr>initialTheta := deg * pi / 180\<rparr>
      in if \<not> isRunning d1 then d1\<lparr>state := (state d1)\<lparr>theta := initialTheta d1\<rparr>\<rparr> else d1)"
| "handle StartClick d =
     (if isRunning d
      then (cancelAnimationFrame (d\<lparr>isRunning := False\<rparr>))\<lparr>startBtnText := ''Start''\<rparr>
      else requestAnimationFrame (d\<lparr>isRunning := True, startBtnText := ''Pause''\<rparr>))"
| "handle ResetClick d =
     resetState ((cancelAnimationFrame (d\<lparr>isRunning := False\<rparr>))\<lparr>startBtnText := ''Start''\<rparr>)"
| "handle Frame d =
     (case frameQueue d of
        [] \<Rightarrow> d
      | h # hs \<Rightarrow> simulate (d\<lparr>frameQueue := hs\<rparr>))"

fun run :: "event list \<Rightarrow> driver \<Rightarrow> driver" where
  "run [] d = d"
| "run (e # es) d = run es (handle e d)"

text \<open>
  The script's initial values, after \<open>init()\<close> has called \<open>resetState\<close>. The page
  is not part of the sources; its start button is taken to be labelled \<open>Start\<close> and no
  frame to be requested yet.
\<close>

definition init :: driver where
  "init = resetState
     \<lparr>state = \<lparr>x = 0, xDot = 0, theta = 0, thetaDot = 0, integral = 0, time = 0\<rparr>,
      gains = \<lparr>Kp = 50, Ki = 0, Kd = 20\<rparr>,
      initialTheta = 10 * pi / 180,
      isRunning = False,
      animationId = None,
      controlInput = 0,
      startBtnText = ''Start'',
      frameQueue = [],
      nextHandle = 1\<rparr>"

section \<open>Reference definitions\<close>

text \<open>
  The classical fourth-order Runge-Kutta step for a vector field \<open>f\<close> on four reals,
  written from its textbook description: four slopes, the second and third taken at the
  midpoint, combined with weights 1, 2, 2, 1 and scaled by \<open>h / 6\<close>. It is the yardstick
  \<open>rk4Step\<close> is compared with.
\<close>

type_synonym vec4 = "real \<times> real \<times> real \<times> real"

fun vadd :: "vec4 \<Rightarrow> vec4 \<Rightarrow> vec4" where
  "vadd (a1, a2, a3, a4) (b1, b2, b3, b4) = (a1 + b1, a2 + b2, a3 + b3, a4 + b4)"

fun vscale :: "real \<Rightarrow> vec4 \<Rightarrow> vec4" where
  "vscale c (a1, a2, a3, a4) = (c * a1, c * a2, c * a3, c * a4)"

definition rk4_classical :: "(vec4 \<Rightarrow> vec4) \<Rightarrow> vec4 \<Rightarrow> real \<Rightarrow> vec4" where
  "rk4_classical f y h =
     (let k1 = f y;
          k2 = f (vadd y (vscale (h / 2) k1));
          k3 = f (vadd y (vscale (h / 2) k2));
          k4 = f (vadd y (vscale h k3))
      in vadd y (vscale (h / 6) (vadd k1 (vadd (vscale 2 k2) (vadd (vscale 2 k3) k4)))))"

definition mech_vec :: "'a mech_scheme \<Rightarrow> vec4" where
  "mech_vec s = (x s, xDot s, theta s, thetaDot s)"

text \<open>The vector field of the cart and pendulum under a constant force \<open>u\<close>.\<close>

definition eom_field :: "params \<Rightarrow> real \<Rightarrow> vec4 \<Rightarrow> vec4" where
  "eom_field p u y =
     (case y of (a, b, c, d) \<Rightarrow>
        let k = computeDerivatives p \<lparr>x = a, xDot = b, theta = c, thetaDot = d\<rparr> u
        in (k_xDot k, k_xDDot k, k_thetaDot k, k_thetaDDot k))"

section \<open>Event classes and scenarios\<close>

text \<open>
  The events that are neither a command nor an initial-angle input: a frame callback
  and the three gain sliders.
\<close>

fun quiet :: "event \<Rightarrow> bool" where
  "quiet (KpInput v) = True"
| "quiet (KiInput v) = True"
| "quiet (KdInput v) = True"
| "quiet Frame = True"
| "quiet (Theta0Input v) = False"
| "quiet StartClick = False"
| "quiet ResetClick = False"

text \<open>
  A run with all gains at 0 started at 180 degrees: the pendulum hangs straight down, at
  rest, which is an equilibrium of the equations of motion. \<open>fallen\<close> is the driver
  after the first frame of that run.
\<close>

definition hanging :: driver where
  "hanging = run [KpInput 0, KdInput 0, Theta0Input 180, StartClick] init"

definition fallen :: driver where
  "fallen = handle Frame hanging"

text \<open>States used as concrete inputs below.\<close>

definition moving_upright :: sim_state where
  "moving_upright = \<lparr>x = 0, xDot = 1, theta = 0, thetaDot = 0, integral = 0, time = 0\<rparr>"

definition beyond_track :: sim_state where
  "beyond_track = \<lparr>x = - 3, xDot = - 1, theta = 0, thetaDot = 0, integral = 0, time = 0\<rparr>"

definition horizontal :: driver where
  "horizontal = init\<lparr>state := (state init)\<lparr>theta := - pi / 2\<rparr>, isRunning := True, startBtnText := ''Pause''\<rparr>"

definition at_wall :: sim_state where
  "at_wall = \<lparr>x = 2.5, xDot = 3, theta = 0, thetaDot = 0, integral = 0, time = 0\<rparr>"





section \<open>Interval enclosures\<close>

text \<open>
  The stable scenario is settled by computing with enclosures. An interval \<open>Iv a b\<close>
  stands for the reals \<open>r\<close> with \<open>a \<le> r * 2\<^sup>2\<^sup>4 \<le> b\<close>; \<open>Any\<close> stands for every
  real. All operations round outwards, so that the result of an operation on intervals
  holds the result of the operation on any reals they stand for.
\<close>

datatype iv = Iv int int | Any

definition SC :: real where "SC = 16777216"

fun rep :: "iv \<Rightarrow> real \<Rightarrow> bool" where
  "rep (Iv a b) r = (of_int a \<le> r * SC \<and> r * SC \<le> of_int b)"
| "rep Any r = True"

definition fl :: "int \<Rightarrow> int" where "fl z = drop_bit (24::nat) z"

definition cl :: "int \<Rightarrow> int" where "cl z = - drop_bit (24::nat) (- z)"

fun iadd :: "iv \<Rightarrow> iv \<Rightarrow> iv" where
  "iadd (Iv a b) (Iv c d) = Iv (a + c) (b + d)"
| "iadd (Iv a b) Any = Any"
| "iadd Any J = Any"

fun ineg :: "iv \<Rightarrow> iv" where
  "ineg (Iv a b) = Iv (- b) (- a)"
| "ineg Any = Any"

definition isub :: "iv \<Rightarrow> iv \<Rightarrow> iv" where "isub I J = iadd I (ineg J)"

fun iscale :: "int \<Rightarrow> iv \<Rightarrow> iv" where
  "iscale n (Iv a b) = (if 0 \<le> n then Iv (n * a) (n * b) else Iv (n * b) (n * a))"
| "iscale n Any = Any"

fun imul_pos :: "iv \<Rightarrow> iv \<Rightarrow> iv" where
  "imul_pos (Iv a b) (Iv c d) = Iv (fl (a * c)) (cl (b * d))"
| "imul_pos (Iv a b) Any = Any"
| "imul_pos Any J = Any"

fun imul_gen :: "iv \<Rightarrow> iv \<Rightarrow> iv" where
  "imul_gen (Iv a b) (Iv c d) =
     Iv (fl (min (min (a * c) (a * d)) (min (b * c) (b * d))))
        (cl (max (max (a * c) (a * d)) (max (b * c) (b * d))))"
| "imul_gen (Iv a b) Any = Any"
| "imul_gen Any J = Any"

fun imul :: "iv \<Rightarrow> iv \<Rightarrow> iv" where
  "imul (Iv a b) (Iv c d) =
     (if 0 \<le> a then
        (if 0 \<le> c then imul_pos (Iv a b) (Iv c d)
         else if d \<le> 0 then ineg (imul_pos (Iv a b) (Iv (- d) (- c)))
         else imul_gen (Iv a b) (Iv c d))
      else if b \<le> 0 then
        (if 0 \<le> c then ineg (imul_pos (Iv (- b) (- a)) (Iv c d))
         else if d \<le> 0 then imul_pos (Iv (- b) (- a)) (Iv (- d) (- c))
         else imul_gen (Iv a b) (Iv c d))
      else imul_gen (Iv a b) (Iv c d))"
| "imul (Iv a b) Any = Any"
| "imul Any J = Any"

fun iinv :: "iv \<Rightarrow> iv" where
  "iinv (Iv a b) =
     (if 0 < a then Iv (281474976710656 div b) (- ((- 281474976710656) div a)) else Any)"
| "iinv Any = Any"

fun widen :: "int \<Rightarrow> iv \<Rightarrow> iv" where
  "widen e (Iv a b) = Iv (a - e) (b + e)"
| "widen e Any = Any"

text \<open>
  Sine and cosine of an interval inside \<open>[-1/4, 1/4]\<close>: the Taylor polynomial of degree 5
  (respectively 6) in Horner form, widened by one unit for the remainder. Elsewhere the
  enclosure is \<open>[-1, 1]\<close>.
\<close>

definition ione :: iv where "ione = Iv 16777216 16777216"

fun small :: "iv \<Rightarrow> bool" where
  "small (Iv a b) = (- 4194304 \<le> a \<and> b \<le> 4194304)"
| "small Any = False"

definition sin_poly :: "iv \<Rightarrow> iv \<Rightarrow> iv" where
  "sin_poly t y =
     widen 1 (imul t (iadd ione (imul y (iadd (Iv (- 2796203) (- 2796202))
                                            (imul y (Iv 139810 139811))))))"

definition cos_poly :: "iv \<Rightarrow> iv" where
  "cos_poly y =
     widen 1 (iadd ione (imul y (iadd (Iv (- 8388608) (- 8388608))
                (imul y (iadd (Iv 699050 699051) (imul y (Iv (- 23302) (- 23301))))))))"

definition unit_iv :: iv where "unit_iv = Iv (- 16777216) 16777216"

definition isin :: "iv \<Rightarrow> iv" where
  "isin t = (if small t then sin_poly t (imul t t) else unit_iv)"

definition icos :: "iv \<Rightarrow> iv" where
  "icos t = (if small t then cos_poly (imul t t) else unit_iv)"

text \<open>
  Enclosures of the constants of \<open>PARAMS\<close> as the evaluator combines them
  (\<open>m = friction = 1/10\<close>, \<open>m l = 1/20\<close>, \<open>M + m\<close>, \<open>m g\<close>, \<open>(M + m) g\<close>) and of
  \<open>dt / 2\<close>, \<open>dt\<close>, \<open>dt / 6\<close>.
\<close>

definition c_tenth :: iv where "c_tenth = Iv 1677721 1677722"

definition c_ml :: iv where "c_ml = Iv 838860 838861"

definition c_Mm :: iv where "c_Mm = Iv 18454937 18454938"

definition c_mg :: iv where "c_mg = Iv 16458448 16458449"

definition c_Mmg :: iv where "c_Mmg = Iv 181042937 181042938"

definition h_half :: iv where "h_half = Iv 83886 83887"

definition h_full :: iv where "h_full = Iv 167772 167773"

definition h_sixth :: iv where "h_sixth = Iv 27962 27963"

text \<open>
  The angular acceleration at a state is \<open>slopeP - u * slopeQ\<close>, with both parts free of
  the force \<open>u\<close>; \<open>advance\<close> is the state moved along a slope, as \<open>state2\<close>, \<open>state3\<close>
  and \<open>state4\<close> of \<open>rk4Step\<close> are.
\<close>

definition friction_part :: "'a mech_scheme \<Rightarrow> real" where
  "friction_part s = 1 / 20 * (thetaDot s * thetaDot s * sin (theta s)) - 1 / 10 * xDot s"

definition slopeQ :: "'a mech_scheme \<Rightarrow> real" where
  "slopeQ s = 2 * (cos (theta s) * (1 / denom PARAMS (theta s)))"

definition slopeP :: "'a mech_scheme \<Rightarrow> real" where
  "slopeP s = 2 * ((10791 / 1000 * sin (theta s) - cos (theta s) * friction_part s)
                    * (1 / denom PARAMS (theta s)))"

definition advance :: "real \<Rightarrow> 'a mech_scheme \<Rightarrow> derivs \<Rightarrow> mech" where
  "advance c s k =
     \<lparr>x = x s + c * k_xDot k, xDot = xDot s + c * k_xDDot k,
      theta = theta s + c * k_thetaDot k, thetaDot = thetaDot s + c * k_thetaDDot k\<rparr>"

text \<open>
  A box encloses the four mechanical fields; a slope encloses the two accelerations of a
  stage, and \<open>slopeP\<close> and \<open>slopeQ\<close> there.
\<close>

datatype ibox = Box (px: iv) (pv: iv) (pt: iv) (pw: iv)

datatype islope = Slope (ka: iv) (kt: iv) (kp: iv) (kq: iv)

definition inbox :: "ibox \<Rightarrow> 'a mech_scheme \<Rightarrow> bool" where
  "inbox B s =
     (rep (px B) (x s) \<and> rep (pv B) (xDot s) \<and> rep (pt B) (theta s) \<and> rep (pw B) (thetaDot s))"

definition inslope :: "islope \<Rightarrow> 'a mech_scheme \<Rightarrow> real \<Rightarrow> bool" where
  "inslope K s u =
     (rep (ka K) (k_xDDot (computeDerivatives PARAMS s u))
      \<and> rep (kt K) (k_thetaDDot (computeDerivatives PARAMS s u))
      \<and> rep (kp K) (slopeP s) \<and> rep (kq K) (slopeQ s))"

definition istage :: "iv \<Rightarrow> ibox \<Rightarrow> islope" where
  "istage U B =
     (let sn = isin (pt B);
          cs = icos (pt B);
          idn = iinv (isub c_Mm (imul c_tenth (imul cs cs)));
          fp = isub (imul c_ml (imul (imul (pw B) (pw B)) sn)) (imul c_tenth (pv B));
          P = iscale 2 (imul (isub (imul c_Mmg sn) (imul cs fp)) idn);
          Q = iscale 2 (imul cs idn)
      in Slope (imul (isub (iadd U fp) (imul c_mg (imul sn cs))) idn)
               (isub P (imul U Q)) P Q)"

definition iadvance :: "iv \<Rightarrow> ibox \<Rightarrow> ibox \<Rightarrow> islope \<Rightarrow> ibox" where
  "iadvance c B F K =
     Box (iadd (px B) (imul c (pv F))) (iadd (pv B) (imul c (ka K)))
         (iadd (pt B) (imul c (pw F))) (iadd (pw B) (imul c (kt K)))"

definition icomb :: "iv \<Rightarrow> iv \<Rightarrow> iv \<Rightarrow> iv \<Rightarrow> iv" where
  "icomb a b c d = imul h_sixth (iadd (iadd a (iscale 2 b)) (iadd (iscale 2 c) d))"

fun unsat :: "iv \<Rightarrow> bool" where
  "unsat (Iv a b) = (- 838860800 \<le> a \<and> b \<le> 838860800)"
| "unsat Any = False"

fun iclamp :: "iv \<Rightarrow> iv" where
  "iclamp (Iv a b) =
     Iv (max (- 838860800) (min 838860800 a)) (max (- 838860800) (min 838860800 b))"
| "iclamp Any = Iv (- 838860800) 838860800"

text \<open>
  One controller-then-integrator step on boxes, for the gains \<open>Kp = 50\<close>, \<open>Ki = 0\<close>,
  \<open>Kd = 20\<close>. While the force is not saturated, \<open>u = 50 theta + 20 thetaDot\<close>, and the new
  angular velocity is enclosed in the form
  \<open>thetaDot * (1 - 20 G) - 50 theta * G + H\<close>, where \<open>G\<close> and \<open>H\<close> are the weighted sums of
  \<open>slopeQ\<close> and \<open>slopeP\<close>: the damping of the controller then shows in the enclosure.
\<close>

definition ifinish :: "bool \<Rightarrow> ibox \<Rightarrow> ibox \<Rightarrow> ibox \<Rightarrow> ibox
                 \<Rightarrow> islope \<Rightarrow> islope \<Rightarrow> islope \<Rightarrow> islope \<Rightarrow> ibox" where
  "ifinish ok B B2 B3 B4 k1 k2 k3 k4 =
     Box (iadd (px B) (icomb (pv B) (pv B2) (pv B3) (pv B4)))
         (iadd (pv B) (icomb (ka k1) (ka k2) (ka k3) (ka k4)))
         (iadd (pt B) (icomb (pw B) (pw B2) (pw B3) (pw B4)))
         (if ok
          then (let G = icomb (kq k1) (kq k2) (kq k3) (kq k4)
                in iadd (isub (imul (pw B) (isub ione (iscale 20 G))) (imul (iscale 50 (pt B)) G))
                        (icomb (kp k1) (kp k2) (kp k3) (kp k4)))
          else iadd (pw B) (icomb (kt k1) (kt k2) (kt k3) (kt k4)))"

definition istep :: "ibox \<Rightarrow> ibox" where
  "istep B =
     (let V = iadd (iscale 50 (pt B)) (iscale 20 (pw B));
          U = iclamp V;
          k1 = istage U B;
          B2 = iadvance h_half B B k1;
          k2 = istage U B2;
          B3 = iadvance h_half B B2 k2;
          k3 = istage U B3;
          B4 = iadvance h_full B B3 k3;
          k4 = istage U B4
      in ifinish (unsat V) B B2 B3 B4 k1 k2 k3 k4)"

text \<open>
  A checked run: every box on the way keeps \<open>|theta| < 3/2\<close> and \<open>|x| < 5/2\<close>. The
  boxes are those of the scenario at steps 0, 25, 50, 75 and 100.
\<close>

fun below :: "int \<Rightarrow> iv \<Rightarrow> bool" where
  "below c (Iv a b) = (- c < a \<and> b < c)"
| "below c Any = False"

definition safe :: "ibox \<Rightarrow> bool" where
  "safe B = (below 25165824 (pt B) \<and> below 41943040 (px B))"

fun run_to :: "nat \<Rightarrow> ibox \<Rightarrow> ibox option" where
  "run_to 0 B = (if safe B then Some B else None)"
| "run_to (Suc n) B = (if safe B then run_to n (istep B) else None)"

definition tuned :: "driver \<Rightarrow> bool" where
  "tuned d = (Kp (gains d) = 50 \<and> Ki (gains d) = 0 \<and> Kd (gains d) = 20)"

definition box0 :: ibox where
  "box0 = Box (Iv 0 0) (Iv 0 0) (Iv 2928176 2928177) (Iv 0 0)"

definition box25 :: ibox where
  "box25 = Box (Iv 1353171 1353738) (Iv 7795916 7801258) (Iv 1832336 1832631)
             (Iv (- 3755523) (- 3754317))"

definition box50 :: ibox where
  "box50 = Box (Iv 3675543 3679413) (Iv 10549001 10572392) (Iv 1100837 1101878)
             (Iv (- 2228447) (- 2225228))"

definition box75 :: ibox where
  "box75 = Box (Iv 6536157 6551369) (Iv 12194507 12269546) (Iv 666396 669398)
             (Iv (- 1324258) (- 1315457))"

definition box100 :: ibox where
  "box100 = Box (Iv 9715833 9764870) (Iv 13150024 13368204) (Iv 406867 415185)
              (Iv (- 794070) (- 769948))"

section \<open>Equations of motion\<close>

text \<open>
  C2. For every state and force \<open>u\<close>, with \<open>s = sin theta\<close>, \<open>c = cos theta\<close> and
  \<open>denom = M + m - m c\<^sup>2\<close>, the evaluator returns \<open>xDot\<close> and \<open>thetaDot\<close> unchanged,
  \<open>xDDot = (u - friction xDot + m l thetaDot\<^sup>2 s - m g s c) / denom\<close> and
  \<open>thetaDDot = ((M + m) g s - c (u - friction xDot + m l thetaDot\<^sup>2 s)) / (l denom)\<close>.
\<close>

theorem computeDerivatives_formula:
  "computeDerivatives p st u =
     \<lparr>k_xDot = xDot st,
      k_xDDot = (u - friction p * xDot st + m p * l p * (thetaDot st)\<^sup>2 * sin (theta st)
                   - m p * g p * sin (theta st) * cos (theta st))
                / (M p + m p - m p * (cos (theta st))\<^sup>2),
      k_thetaDot = thetaDot st,
      k_thetaDDot = ((M p + m p) * g p * sin (theta st)
                       - cos (theta st) * (u - friction p * xDot st
                                             + m p * l p * (thetaDot st)\<^sup>2 * sin (theta st)))
                    / (l p * (M p + m p - m p * (cos (theta st))\<^sup>2))\<rparr>"
  by (simp add: computeDerivatives_def denom_def Let_def power2_eq_square mult.assoc)

section \<open>Controller\<close>








section \<open>Integrator\<close>

lemma computeDerivatives_mech:
  "computeDerivatives p s u =
   computeDerivatives p \<lparr>x = x s, xDot = xDot s, theta = theta s, thetaDot = thetaDot s\<rparr> u"
  by (simp add: computeDerivatives_def)

text \<open>
  C1. For any state, force \<open>u\<close> and step \<open>h\<close>, the mechanical part of \<open>rk4Step\<close> is the
  classical four-stage Runge-Kutta step of the equations of motion with \<open>u\<close> held
  constant in all four evaluations; \<open>integral\<close> advances by \<open>theta * h\<close> with the
  theta from before the step, and \<open>time\<close> by \<open>h\<close>.
\<close>

theorem rk4Step_classical:
  "mech_vec (rk4Step p s u h) = rk4_classical (eom_field p u) (mech_vec s) h
   \<and> integral (rk4Step p s u h) = integral s + theta s * h
   \<and> time (rk4Step p s u h) = time s + h"
  by (simp add: rk4Step_def rk4_classical_def mech_vec_def eom_field_def Let_def
      computeDerivatives_mech [of p s u] algebra_simps)

section \<open>Denominator\<close>

lemma denom_ge_M: "0 \<le> m p \<Longrightarrow> M p \<le> denom p th"
proof -
  assume mp: "0 \<le> m p"
  have "cos th * cos th = 1 - (sin th)\<^sup>2"
    by (simp add: cos_squared_eq power2_eq_square [symmetric])
  then have "denom p th = M p + m p * (sin th)\<^sup>2"
    by (simp add: denom_def mult.assoc right_diff_distrib)
  moreover have "0 \<le> m p * (sin th)\<^sup>2" using mp by simp
  ultimately show ?thesis by simp
qed

text \<open>
  C7. With cart mass \<open>M > 0\<close> and pendulum mass \<open>m > 0\<close>, the denominator
  \<open>M + m - m cos\<^sup>2 theta\<close> is positive, hence non-zero, at every angle, and with
  \<open>l > 0\<close> so is \<open>l * denom\<close>: neither division of the evaluator divides by zero.
\<close>

theorem denom_nonzero:
  "0 < M p \<Longrightarrow> 0 < m p \<Longrightarrow>
   0 < denom p th \<and> denom p th \<noteq> 0 \<and> (0 < l p \<longrightarrow> l p * denom p th \<noteq> 0)"
  using denom_ge_M [of p th] by auto

theorem denom_nonzero_witness:
  "0 < M PARAMS \<and> 0 < m PARAMS \<and> 0 < l PARAMS
   \<and> denom PARAMS 0 = 1 \<and> denom PARAMS 0 \<noteq> 0 \<and> l PARAMS * denom PARAMS 0 \<noteq> 0"
  using denom_nonzero [of PARAMS 0] by (simp add: PARAMS_def denom_def)

section \<open>Reset\<close>

text \<open>
  C8. From any driver state, the reset command leaves \<open>x\<close>, \<open>xDot\<close>, \<open>thetaDot\<close>,
  \<open>integral\<close> and \<open>time\<close> at 0 and \<open>theta\<close> at the configured initial angle.
\<close>

theorem reset_restores_initial_state:
  "state (handle ResetClick d) =
     \<lparr>x = 0, xDot = 0, theta = initialTheta d, thetaDot = 0, integral = 0, time = 0\<rparr>
   \<and> initialTheta (handle ResetClick d) = initialTheta d
   \<and> state (resetState d) = state (handle ResetClick d)"
  by (simp add: resetState_def cancelAnimationFrame_def split: option.splits)

section \<open>Upright equilibrium\<close>

text \<open>
  C6, as stated, fails: at \<open>theta = 0\<close>, \<open>thetaDot = 0\<close>, \<open>u = 0\<close> a cart moving at
  \<open>xDot = 1\<close> is braked by friction, and the evaluator returns \<open>xDDot = -0.1\<close> and
  \<open>thetaDDot = 0.2\<close>.
\<close>

theorem upright_moving_cart_counterexample:
  "theta moving_upright = 0 \<and> thetaDot moving_upright = 0
   \<and> k_xDDot (computeDerivatives PARAMS moving_upright 0) = - 1 / 10
   \<and> k_thetaDDot (computeDerivatives PARAMS moving_upright 0) = 1 / 5"
  by (simp add: moving_upright_def computeDerivatives_def denom_def PARAMS_def Let_def)

text \<open>
  C6, amended. For every state with \<open>theta = 0\<close>, \<open>thetaDot = 0\<close> and the cart at rest
  (\<open>xDot = 0\<close>), and \<open>u = 0\<close>, the evaluator returns \<open>xDDot = 0\<close> and \<open>thetaDDot = 0\<close>
  (with \<open>M > 0\<close> and \<open>l > 0\<close>, so that neither division is by zero).
\<close>

theorem upright_rest_fixed_point:
  "0 < M p \<Longrightarrow> 0 < l p \<Longrightarrow> theta s = 0 \<Longrightarrow> thetaDot s = 0 \<Longrightarrow> xDot s = 0 \<Longrightarrow>
   denom p (theta s) = M p
   \<and> k_xDDot (computeDerivatives p s 0) = 0 \<and> k_thetaDDot (computeDerivatives p s 0) = 0
   \<and> k_xDot (computeDerivatives p s 0) = 0 \<and> k_thetaDot (computeDerivatives p s 0) = 0"
  by (simp add: computeDerivatives_def denom_def Let_def)

theorem upright_rest_fixed_point_witness:
  "0 < M PARAMS \<and> 0 < l PARAMS \<and> theta (state init) = 10 * pi / 180
   \<and> k_xDDot (computeDerivatives PARAMS ((state init)\<lparr>theta := 0\<rparr>) 0) = 0
   \<and> k_thetaDDot (computeDerivatives PARAMS ((state init)\<lparr>theta := 0\<rparr>) 0) = 0"
  using upright_rest_fixed_point [of PARAMS "(state init)\<lparr>theta := 0\<rparr>"]
  by (simp add: PARAMS_def init_def resetState_def)

section \<open>Track limits and fall detection\<close>

lemma subStep_fields:
  "isRunning (subStep d) = isRunning d" "startBtnText (subStep d) = startBtnText d"
  "gains (subStep d) = gains d" "frameQueue (subStep d) = frameQueue d"
  by (simp_all add: subStep_def Let_def)

lemma subSteps_fields:
  "isRunning (subSteps n d) = isRunning d \<and> startBtnText (subSteps n d) = startBtnText d
   \<and> gains (subSteps n d) = gains d"
  by (induction n arbitrary: d) (simp_all add: subStep_fields)

lemma simulate_state:
  "isRunning d \<Longrightarrow> state (simulate d) = boundCart (state (subSteps stepsPerFrame d))"
  by (simp add: simulate_def Let_def checkFallen_def requestAnimationFrame_def)




text \<open>
  C10. Both tests are strict: with \<open>|theta|\<close> exactly \<open>pi / 2\<close> the fall check changes
  nothing (the run goes on, the button label stays), and with \<open>|x|\<close> exactly 2.5 the
  clamp changes nothing (\<open>xDot\<close> stays). The clamp never touches \<open>theta\<close>, \<open>thetaDot\<close>,
  \<open>integral\<close> or \<open>time\<close>. A tick of a running driver is the sub-steps, then this clamp,
  then this fall check.
\<close>

theorem strict_thresholds:
  "(\<bar>theta (state d)\<bar> = pi / 2 \<longrightarrow> checkFallen d = d)
   \<and> (\<bar>x s\<bar> = 2.5 \<longrightarrow> boundCart s = s)
   \<and> theta (boundCart s) = theta s \<and> thetaDot (boundCart s) = thetaDot s
   \<and> integral (boundCart s) = integral s \<and> time (boundCart s) = time s
   \<and> (isRunning d \<longrightarrow>
        simulate d =
          (let d3 = checkFallen ((subSteps stepsPerFrame d)
                      \<lparr>state := boundCart (state (subSteps stepsPerFrame d))\<rparr>)
           in if isRunning d3 then requestAnimationFrame d3 else d3))"
  by (simp add: checkFallen_def boundCart_def simulate_def Let_def)

theorem strict_thresholds_witness:
  "\<bar>theta (state horizontal)\<bar> = pi / 2 \<and> checkFallen horizontal = horizontal
   \<and> isRunning (checkFallen horizontal) \<and> startBtnText (checkFallen horizontal) = ''Pause''
   \<and> \<bar>x at_wall\<bar> = 2.5 \<and> boundCart at_wall = at_wall \<and> xDot (boundCart at_wall) = 3
   \<and> theta (boundCart beyond_track) = theta beyond_track"
  using strict_thresholds [of horizontal at_wall] strict_thresholds [of horizontal beyond_track] 
  by (simp add: horizontal_def at_wall_def)

section \<open>Stopping after a fall\<close>

lemma hanging_eq:
  "hanging =
     \<lparr>state = \<lparr>x = 0, xDot = 0, theta = pi, thetaDot = 0, integral = 0, time = 0\<rparr>,
      gains = \<lparr>Kp = 0, Ki = 0, Kd = 0\<rparr>,
      initialTheta = pi,
      isRunning = True,
      animationId = Some 1,
      controlInput = 0,
      startBtnText = ''Pause'',
      frameQueue = [1],
      nextHandle = 2\<rparr>"
  by (simp add: hanging_def init_def resetState_def requestAnimationFrame_def Let_def)

lemma rk4Step_hanging:
  "rk4Step PARAMS \<lparr>x = a, xDot = 0, theta = pi, thetaDot = 0, integral = i, time = t\<rparr> 0 h
   = \<lparr>x = a, xDot = 0, theta = pi, thetaDot = 0, integral = i + pi * h, time = t + h\<rparr>"
  by (simp add: rk4Step_def computeDerivatives_def denom_def PARAMS_def Let_def)

lemma subStep_hanging:
  "subStep (d\<lparr>state := \<lparr>x = a, xDot = 0, theta = pi, thetaDot = 0, integral = i, time = t\<rparr>,
             gains := \<lparr>Kp = 0, Ki = 0, Kd = 0\<rparr>\<rparr>)
   = d\<lparr>state := \<lparr>x = a, xDot = 0, theta = pi, thetaDot = 0,
                   integral = i + pi * dt PARAMS, time = t + dt PARAMS\<rparr>,
        gains := \<lparr>Kp = 0, Ki = 0, Kd = 0\<rparr>, controlInput := 0\<rparr>"
  by (simp add: subStep_def computeControl_def Let_def rk4Step_hanging)

lemma fallen_eq:
  "fallen =
     \<lparr>state = \<lparr>x = 0, xDot = 0, theta = pi, thetaDot = 0, integral = pi / 50, time = 1 / 50\<rparr>,
      gains = \<lparr>Kp = 0, Ki = 0, Kd = 0\<rparr>,
      initialTheta = pi,
      isRunning = False,
      animationId = Some 1,
      controlInput = 0,
      startBtnText = ''Start'',
      frameQueue = [],
      nextHandle = 2\<rparr>"
  apply (simp add: fallen_def hanging_eq simulate_def stepsPerFrame_def numeral_2_eq_2 Let_def
     subStep_def computeControl_def rk4Step_hanging boundCart_def checkFallen_def)
  apply (simp add: PARAMS_def)
  done

lemma boundCart_time: "time (boundCart s) = time s"
  by (simp add: boundCart_def)

lemma subStep_time: "time (state (subStep d)) = time (state d) + dt PARAMS"
  by (simp add: subStep_def Let_def rk4Step_def)

lemma simulate_time:
  "isRunning d \<Longrightarrow> time (state (simulate d)) = time (state d) + 2 * dt PARAMS"
  by (simp add: simulate_state boundCart_time stepsPerFrame_def numeral_2_eq_2 subStep_time)

lemma start_then_frame:
  "\<not> isRunning d \<Longrightarrow>
   time (state (run [StartClick, Frame] d)) = time (state d) + 2 * dt PARAMS"
  by (simp add: requestAnimationFrame_def simulate_time split: list.splits)

lemma simulate_idle: "\<not> isRunning d \<Longrightarrow> simulate d = d"
  by (simp add: simulate_def)

lemma quiet_keeps_idle:
  "\<not> isRunning d \<Longrightarrow> quiet e \<Longrightarrow>
   state (handle e d) = state d \<and> \<not> isRunning (handle e d)"
  by (cases e) (simp_all add: simulate_idle split: list.splits)

lemma quiet_run_idle:
  "\<not> isRunning d \<Longrightarrow> list_all quiet es \<Longrightarrow>
   state (run es d) = state d \<and> \<not> isRunning (run es d)"
proof (induction es arbitrary: d)
  case Nil
  then show ?case by simp
next
  case (Cons e es)
  from Cons.prems have idle: "\<not> isRunning (handle e d)" and same: "state (handle e d) = state d"
    using quiet_keeps_idle [of d e] by simp_all
  from Cons.prems have "list_all quiet es" by simp
  with Cons.IH [OF idle] same show ?case by simp
qed

lemma subSteps_queue: "frameQueue (subSteps n d) = frameQueue d"
  by (induction n arbitrary: d) (simp_all add: subStep_fields)

lemma simulate_fall:
  "isRunning d \<Longrightarrow> \<bar>theta (state (simulate d))\<bar> > pi / 2 \<Longrightarrow>
   \<not> isRunning (simulate d) \<and> startBtnText (simulate d) = ''Start''
   \<and> frameQueue (simulate d) = frameQueue d"
  by (simp add: simulate_def Let_def checkFallen_def requestAnimationFrame_def
      subSteps_queue split: if_splits)

lemma restarted_eq:
  "state (run [StartClick, Frame] fallen) =
     \<lparr>x = 0, xDot = 0, theta = pi, thetaDot = 0, integral = pi / 25, time = 1 / 25\<rparr>"
  apply (simp add: fallen_eq requestAnimationFrame_def simulate_def stepsPerFrame_def
      numeral_2_eq_2 Let_def subStep_def computeControl_def rk4Step_hanging boundCart_def
      checkFallen_def)
  apply (simp add: PARAMS_def)
  done

text \<open>
  C4, as stated, fails: the script has no state apart from \<open>isRunning = false\<close> for a
  fallen pendulum. In the hanging run the first frame ends with \<open>theta = pi\<close> and stops
  the run; a start command and the frame it schedules then step the state again
  (\<open>time\<close> goes from 0.02 to 0.04).
\<close>

theorem restart_after_fall_counterexample:
  "isRunning hanging \<and> fallen = handle Frame hanging
   \<and> \<bar>theta (state fallen)\<bar> > pi / 2 \<and> \<not> isRunning fallen
   \<and> state (run [StartClick, Frame] fallen) \<noteq> state fallen
   \<and> time (state fallen) = 1 / 50
   \<and> time (state (run [StartClick, Frame] fallen)) = 1 / 25"
proof -
  have running: "isRunning hanging" by (simp add: hanging_eq)
  have tick: "fallen = handle Frame hanging" by (simp add: fallen_def)
  have over: "\<bar>theta (state fallen)\<bar> > pi / 2" by (simp add: fallen_eq)
  have stopped: "\<not> isRunning fallen" by (simp add: fallen_eq)
  have before: "time (state fallen) = 1 / 50" by (simp add: fallen_eq)
  have after: "time (state (run [StartClick, Frame] fallen)) = 1 / 25"
    by (simp only: restarted_eq) simp
  have moved: "state (run [StartClick, Frame] fallen) \<noteq> state fallen"
  proof
    assume "state (run [StartClick, Frame] fallen) = state fallen"
    then have "time (state (run [StartClick, Frame] fallen)) = time (state fallen)"
      by (simp only:)
    with before after show False by simp
  qed
  from running tick over stopped moved before after show ?thesis by blast
qed

text \<open>
  C4, amended. Once a tick of a running driver ends with \<open>|theta| > pi / 2\<close>, the run
  is stopped (\<open>isRunning\<close> false, label \<open>Start\<close>, no new frame requested): frame
  callbacks and gain inputs leave the simulation state as it is and the driver
  stopped. A start command is enough to resume: the frame it schedules advances
  \<open>time\<close> by two steps.
\<close>

theorem fall_stops_until_command:
  "isRunning d \<Longrightarrow> \<bar>theta (state (simulate d))\<bar> > pi / 2 \<Longrightarrow> list_all quiet es \<Longrightarrow>
   \<not> isRunning (simulate d) \<and> startBtnText (simulate d) = ''Start''
   \<and> frameQueue (simulate d) = frameQueue d
   \<and> state (run es (simulate d)) = state (simulate d)
   \<and> \<not> isRunning (run es (simulate d))
   \<and> time (state (run [StartClick, Frame] (run es (simulate d))))
       = time (state (simulate d)) + 2 * dt PARAMS"
proof -
  assume running: "isRunning d" and over: "\<bar>theta (state (simulate d))\<bar> > pi / 2"
    and es: "list_all quiet es"
  from simulate_fall [OF running over]
  have stop: "\<not> isRunning (simulate d)" and label: "startBtnText (simulate d) = ''Start''"
    and queue: "frameQueue (simulate d) = frameQueue d"
    by simp_all
  from quiet_run_idle [OF stop es]
  have same: "state (run es (simulate d)) = state (simulate d)"
    and idle: "\<not> isRunning (run es (simulate d))"
    by simp_all
  from start_then_frame [OF idle] same
  have "time (state (run [StartClick, Frame] (run es (simulate d))))
          = time (state (simulate d)) + 2 * dt PARAMS"
    by simp
  with stop label queue same idle show ?thesis by simp
qed

lemma simulate_hanging_theta: "theta (state (simulate hanging)) = pi"
  by (simp add: hanging_eq simulate_def stepsPerFrame_def numeral_2_eq_2 Let_def subStep_def
      computeControl_def rk4Step_hanging boundCart_def checkFallen_def)

theorem fall_stops_until_command_witness:
  "isRunning hanging \<and> \<bar>theta (state (simulate hanging))\<bar> > pi / 2
   \<and> list_all quiet [Frame, KpInput 5, Frame]
   \<and> \<not> isRunning (simulate hanging)
   \<and> state (run [Frame, KpInput 5, Frame] (simulate hanging)) = state (simulate hanging)
   \<and> time (state (run [StartClick, Frame] (run [Frame, KpInput 5, Frame] (simulate hanging))))
       = time (state (simulate hanging)) + 2 * dt PARAMS"
proof -
  have running: "isRunning hanging" by (simp add: hanging_eq)
  have over: "\<bar>theta (state (simulate hanging))\<bar> > pi / 2"
    by (simp add: simulate_hanging_theta)
  have es: "list_all quiet [Frame, KpInput 5, Frame]" by simp
  from fall_stops_until_command [OF running over es] running over es
  show ?thesis by blast
qed

section \<open>Soundness of the interval operations\<close>

lemma SC_pos: "0 < SC" by (simp add: SC_def)

lemma fl_le: "of_int (fl z) \<le> of_int z / SC"
proof -
  have "fl z = z div 16777216" by (simp add: fl_def drop_bit_eq_div)
  then have "real_of_int (fl z) = of_int \<lfloor>real_of_int z / of_int 16777216\<rfloor>"
    by (simp only: floor_divide_of_int_eq)
  also have "\<dots> \<le> real_of_int z / of_int 16777216" by (rule of_int_floor_le)
  finally show ?thesis by (simp add: SC_def)
qed

lemma cl_ge: "of_int z / SC \<le> of_int (cl z)"
proof -
  have "real_of_int (fl (- z)) \<le> of_int (- z) / SC" by (rule fl_le)
  moreover have "cl z = - fl (- z)" by (simp add: cl_def fl_def)
  ultimately show ?thesis by simp
qed

lemma rep_iadd: "rep I u \<Longrightarrow> rep J v \<Longrightarrow> rep (iadd I J) (u + v)"
  by (cases I; cases J) (simp_all add: distrib_right)

lemma rep_ineg: "rep I u \<Longrightarrow> rep (ineg I) (- u)"
  by (cases I) simp_all

lemma rep_isub: "rep I u \<Longrightarrow> rep J v \<Longrightarrow> rep (isub I J) (u - v)"
  using rep_iadd [OF _ rep_ineg, of I u J v] by (simp add: isub_def)

lemma rep_iscale: "rep I u \<Longrightarrow> rep (iscale n I) (of_int n * u)"
proof (cases I)
  case (Iv a b)
  assume r: "rep I u"
  show ?thesis
  proof (cases "0 \<le> n")
    case True
    then have "0 \<le> real_of_int n" by simp
    with r Iv have "of_int n * of_int a \<le> of_int n * (u * SC)" "of_int n * (u * SC) \<le> of_int n * of_int b"
      by (simp_all add: mult_left_mono)
    with True Iv show ?thesis by (simp add: mult.assoc)
  next
    case False
    then have "real_of_int n \<le> 0" by simp
    with r Iv have "of_int n * of_int b \<le> of_int n * (u * SC)" "of_int n * (u * SC) \<le> of_int n * of_int a"
      by (simp_all add: mult_left_mono_neg)
    with False Iv show ?thesis by (simp add: mult.assoc)
  qed
qed simp

lemma rep_widen_err:
  "rep I u \<Longrightarrow> \<bar>v - u\<bar> * SC \<le> of_int e \<Longrightarrow> rep (widen e I) v"
proof (cases I)
  case (Iv a b)
  assume r: "rep I u" and e: "\<bar>v - u\<bar> * SC \<le> of_int e"
  have "\<bar>v * SC - u * SC\<bar> = \<bar>v - u\<bar> * SC"
    using SC_pos by (simp add: abs_mult left_diff_distrib [symmetric])
  with e have "\<bar>v * SC - u * SC\<bar> \<le> of_int e" by simp
  with r Iv show ?thesis by auto
qed simp

lemma scaled_prod: "(u * v) * SC = (u * SC) * (v * SC) / SC"
  using SC_pos by simp

lemma rep_prod:
  assumes "of_int p \<le> (u * SC) * (v * SC)" and "(u * SC) * (v * SC) \<le> of_int q"
  shows "rep (Iv (fl p) (cl q)) (u * v)"
proof -
  have "of_int (fl p) \<le> of_int p / SC" by (rule fl_le)
  also have "\<dots> \<le> (u * SC) * (v * SC) / SC"
    using assms(1) SC_pos by (intro divide_right_mono) simp_all
  also have "\<dots> = (u * v) * SC" by (simp add: scaled_prod)
  finally have 1: "of_int (fl p) \<le> (u * v) * SC" .
  have "(u * v) * SC = (u * SC) * (v * SC) / SC" by (simp add: scaled_prod)
  also have "\<dots> \<le> of_int q / SC"
    using assms(2) SC_pos by (intro divide_right_mono) simp_all
  also have "\<dots> \<le> of_int (cl q)" by (rule cl_ge)
  finally have 2: "(u * v) * SC \<le> of_int (cl q)" .
  from 1 2 show ?thesis by simp
qed

lemma rep_imul_pos:
  assumes "rep (Iv a b) u" "rep (Iv c d) v" "0 \<le> a" "0 \<le> c"
  shows "rep (imul_pos (Iv a b) (Iv c d)) (u * v)"
proof -
  from assms have U: "of_int a \<le> u * SC" "u * SC \<le> of_int b"
    and V: "of_int c \<le> v * SC" "v * SC \<le> of_int d" by simp_all
  from assms have a0: "0 \<le> real_of_int a" and c0: "0 \<le> real_of_int c" by simp_all
  have "real_of_int a * of_int c \<le> (u * SC) * (v * SC)"
    using U(1) V(1) a0 c0 by (rule mult_mono') 
  moreover have "(u * SC) * (v * SC) \<le> real_of_int b * of_int d"
  proof (rule mult_mono)
    show "u * SC \<le> of_int b" by (rule U(2))
    show "v * SC \<le> of_int d" by (rule V(2))
    show "0 \<le> real_of_int b" using a0 U by linarith
    show "0 \<le> v * SC" using c0 V by linarith
  qed
  ultimately show ?thesis using rep_prod [of "a * c" u v "b * d"] by simp
qed

lemma mult_between:
  fixes p q w z :: real
  assumes "p \<le> w" "w \<le> q"
  shows "min (p * z) (q * z) \<le> w * z \<and> w * z \<le> max (p * z) (q * z)"
proof (cases "0 \<le> z")
  case True
  with assms have "p * z \<le> w * z" "w * z \<le> q * z" by (simp_all add: mult_right_mono)
  then show ?thesis by (simp add: min_def max_def)
next
  case False
  then have "z \<le> 0" by simp
  with assms have "q * z \<le> w * z" "w * z \<le> p * z" by (simp_all add: mult_right_mono_neg)
  then show ?thesis by (simp add: min_def max_def)
qed

lemma rep_imul_gen:
  assumes "rep (Iv a b) u" "rep (Iv c d) v"
  shows "rep (imul_gen (Iv a b) (Iv c d)) (u * v)"
proof -
  let ?U = "u * SC" and ?V = "v * SC"
  let ?a = "real_of_int a" and ?b = "real_of_int b" and ?c = "real_of_int c" and ?d = "real_of_int d"
  from assms have U: "?a \<le> ?U" "?U \<le> ?b" and V: "?c \<le> ?V" "?V \<le> ?d" by simp_all
  from mult_between [OF U, of ?V]
  have 1: "min (?a * ?V) (?b * ?V) \<le> ?U * ?V" "?U * ?V \<le> max (?a * ?V) (?b * ?V)" by simp_all
  from mult_between [OF V, of ?a]
  have 2: "min (?a * ?c) (?a * ?d) \<le> ?a * ?V" "?a * ?V \<le> max (?a * ?c) (?a * ?d)"
    by (simp_all add: mult.commute)
  from mult_between [OF V, of ?b]
  have 3: "min (?b * ?c) (?b * ?d) \<le> ?b * ?V" "?b * ?V \<le> max (?b * ?c) (?b * ?d)"
    by (simp_all add: mult.commute)
  have lo: "min (min (?a * ?c) (?a * ?d)) (min (?b * ?c) (?b * ?d)) \<le> ?U * ?V"
    using 1(1) 2(1) 3(1) by (simp add: min_def split: if_splits)
  have hi: "?U * ?V \<le> max (max (?a * ?c) (?a * ?d)) (max (?b * ?c) (?b * ?d))"
    using 1(2) 2(2) 3(2) by (simp add: max_def split: if_splits)
  have "real_of_int (min (min (a * c) (a * d)) (min (b * c) (b * d))) \<le> ?U * ?V"
    using lo by (simp add: of_int_min)
  moreover have "?U * ?V \<le> real_of_int (max (max (a * c) (a * d)) (max (b * c) (b * d)))"
    using hi by (simp add: of_int_max)
  ultimately show ?thesis
    using rep_prod [of "min (min (a * c) (a * d)) (min (b * c) (b * d))" u v
                       "max (max (a * c) (a * d)) (max (b * c) (b * d))"]
    by simp
qed

lemma rep_flip: "rep (Iv a b) u \<Longrightarrow> rep (Iv (- b) (- a)) (- u)"
  by simp

lemma rep_imul: "rep I u \<Longrightarrow> rep J v \<Longrightarrow> rep (imul I J) (u * v)"
proof (cases I; cases J)
  fix a b c d
  assume I: "I = Iv a b" and J: "J = Iv c d" and ru: "rep I u" and rv: "rep J v"
  from ru I have ru': "rep (Iv a b) u" by simp
  from rv J have rv': "rep (Iv c d) v" by simp
  consider (pp) "0 \<le> a" "0 \<le> c" | (pn) "0 \<le> a" "\<not> 0 \<le> c" "d \<le> 0"
    | (np) "\<not> 0 \<le> a" "b \<le> 0" "0 \<le> c" | (nn) "\<not> 0 \<le> a" "b \<le> 0" "\<not> 0 \<le> c" "d \<le> 0"
    | (gen) "imul (Iv a b) (Iv c d) = imul_gen (Iv a b) (Iv c d)"
    by (cases "0 \<le> a"; cases "0 \<le> c"; cases "b \<le> 0"; cases "d \<le> 0") auto
  then have "rep (imul (Iv a b) (Iv c d)) (u * v)"
  proof cases
    case pp
    with rep_imul_pos [OF ru' rv'] show ?thesis by simp
  next
    case pn
    then have "0 \<le> - d" by simp
    from rep_ineg [OF rep_imul_pos [OF ru' rep_flip [OF rv'] pn(1) this]] pn
    show ?thesis by simp
  next
    case np
    then have "0 \<le> - b" by simp
    from rep_ineg [OF rep_imul_pos [OF rep_flip [OF ru'] rv' this np(3)]] np
    show ?thesis by simp
  next
    case nn
    then have "0 \<le> - b" "0 \<le> - d" by simp_all
    from rep_imul_pos [OF rep_flip [OF ru'] rep_flip [OF rv'] this] nn
    show ?thesis by simp
  next
    case gen
    with rep_imul_gen [OF ru' rv'] show ?thesis by simp
  qed
  with I J show ?thesis by simp
qed simp_all

lemma rep_iinv: "rep I u \<Longrightarrow> rep (iinv I) (1 / u)"
proof (cases I)
  case (Iv a b)
  assume r: "rep I u"
  show ?thesis
  proof (cases "0 < a")
    case True
    from r Iv have U: "of_int a \<le> u * SC" "u * SC \<le> of_int b" by simp_all
    from True have a0: "0 < real_of_int a" by simp
    with U have U0: "0 < u * SC" and b0: "0 < real_of_int b" by linarith+
    then have u0: "0 < u" using SC_pos by (simp add: zero_less_mult_iff)
    have S2: "SC * SC = real_of_int 281474976710656" by (simp add: SC_def)
    have eq: "(1 / u) * SC = SC * SC / (u * SC)" using SC_pos u0 by simp
    have "real_of_int (281474976710656 div b) = of_int \<lfloor>real_of_int 281474976710656 / of_int b\<rfloor>"
      by (simp only: floor_divide_of_int_eq)
    also have "\<dots> \<le> real_of_int 281474976710656 / of_int b" by (rule of_int_floor_le)
    also have "\<dots> = SC * SC / of_int b" by (simp only: S2)
    also have "\<dots> \<le> SC * SC / (u * SC)"
    proof (rule divide_left_mono)
      show "u * SC \<le> real_of_int b" by (rule U(2))
      show "0 \<le> SC * SC" using SC_pos by simp
      show "0 < real_of_int b * (u * SC)" using b0 U0 by simp
    qed
    finally have lo: "real_of_int (281474976710656 div b) \<le> (1 / u) * SC" by (simp only: eq)
    have "real_of_int ((- 281474976710656) div a) = of_int \<lfloor>real_of_int (- 281474976710656) / of_int a\<rfloor>"
      by (simp only: floor_divide_of_int_eq)
    also have "\<dots> \<le> real_of_int (- 281474976710656) / of_int a" by (rule of_int_floor_le)
    finally have "real_of_int 281474976710656 / of_int a \<le> - real_of_int ((- 281474976710656) div a)"
      by simp
    moreover have "SC * SC / (u * SC) \<le> real_of_int 281474976710656 / of_int a"
      unfolding S2 [symmetric]
    proof (rule divide_left_mono)
      show "real_of_int a \<le> u * SC" by (rule U(1))
      show "0 \<le> SC * SC" using SC_pos by simp
      show "0 < u * SC * real_of_int a" using a0 U0 by simp
    qed
    ultimately have hi: "(1 / u) * SC \<le> - real_of_int ((- 281474976710656) div a)"
      by (simp only: eq)
    from lo hi True Iv show ?thesis by simp
  next
    case False
    with Iv show ?thesis by simp
  qed
qed simp

subsection \<open>Sine and cosine\<close>

lemma rep_ione: "rep ione 1" by (simp add: ione_def SC_def)

lemma rep_unit: "\<bar>u\<bar> \<le> 1 \<Longrightarrow> rep unit_iv u"
  by (auto simp add: unit_iv_def SC_def abs_le_iff)

lemma small_abs: "small I \<Longrightarrow> rep I u \<Longrightarrow> \<bar>u\<bar> \<le> 1 / 4"
  by (cases I) (auto simp add: SC_def abs_le_iff)

lemma sin_coeffs:
  "sin_coeff 0 = 0" "sin_coeff 1 = 1" "sin_coeff 2 = 0" "sin_coeff 3 = - 1 / 6"
  "sin_coeff 4 = 0" "sin_coeff 5 = 1 / 120" "sin_coeff 6 = 0"
  by (simp_all add: sin_coeff_def fact_numeral)

lemma cos_coeffs:
  "cos_coeff 0 = 1" "cos_coeff 1 = 0" "cos_coeff 2 = - 1 / 2" "cos_coeff 3 = 0"
  "cos_coeff 4 = 1 / 24" "cos_coeff 5 = 0" "cos_coeff 6 = - 1 / 720" "cos_coeff 7 = 0"
  by (simp_all add: cos_coeff_def fact_numeral)

lemma below7: "{..<7::nat} = {0, 1, 2, 3, 4, 5, 6}" by auto

lemma below8: "{..<8::nat} = {0, 1, 2, 3, 4, 5, 6, 7}" by auto

lemma sin_coeff_Suc0: "sin_coeff (Suc 0) = 1" "cos_coeff (Suc 0) = 0"
  by (simp_all add: sin_coeff_def cos_coeff_def)

lemma small_powers:
  fixes u :: real
  shows "u ^ 2 = u * u" "u ^ 3 = u * u * u" "u ^ 4 = u * u * u * u" "u ^ 5 = u * u * u * u * u"
    "u ^ 6 = u * u * u * u * u * u"
  by (simp_all add: eval_nat_numeral)

lemma sin_taylor5:
  fixes u :: real
  shows "\<bar>sin u - u * (1 + u * u * (- 1 / 6 + u * u * (1 / 120)))\<bar> \<le> \<bar>u\<bar> ^ 7 / 5040"
proof -
  have poly: "(\<Sum>k<7. sin_coeff k * u ^ k) = u * (1 + u * u * (- 1 / 6 + u * u * (1 / 120)))"
    by (simp add: below7 sin_coeffs sin_coeff_Suc0 small_powers algebra_simps)
  have "fact 7 = (5040::real)" by (simp add: fact_numeral)
  then have rest: "inverse (fact 7) * \<bar>u\<bar> ^ 7 = \<bar>u\<bar> ^ 7 / 5040"
    by (simp only: inverse_eq_divide times_divide_eq_left mult_1)
  from Maclaurin_sin_bound [of u 7] show ?thesis by (simp only: poly rest)
qed

lemma cos_taylor6:
  fixes u :: real
  shows "\<bar>cos u - (1 + u * u * (- 1 / 2 + u * u * (1 / 24 + u * u * (- 1 / 720))))\<bar>
     \<le> \<bar>u\<bar> ^ 8 / 40320"
proof -
  obtain t where t: "cos u = (\<Sum>k<8. cos_coeff k * u ^ k) + (cos (t + 1 / 2 * real 8 * pi) / fact 8) * u ^ 8"
    using Maclaurin_cos_expansion [of u 8] by blast
  have poly: "(\<Sum>k<8. cos_coeff k * u ^ k) = 1 + u * u * (- 1 / 2 + u * u * (1 / 24 + u * u * (- 1 / 720)))"
    by (simp add: below8 cos_coeffs sin_coeff_Suc0 small_powers algebra_simps)
  from t have "cos u - (\<Sum>k<8. cos_coeff k * u ^ k) = (cos (t + 1 / 2 * real 8 * pi) / fact 8) * u ^ 8"
    by (simp only: add_diff_cancel_left')
  then have "\<bar>cos u - (\<Sum>k<8. cos_coeff k * u ^ k)\<bar> = \<bar>(cos (t + 1 / 2 * real 8 * pi) / fact 8) * u ^ 8\<bar>"
    by (simp only:)
  also have "\<dots> = \<bar>cos (t + 1 / 2 * real 8 * pi)\<bar> * \<bar>u\<bar> ^ 8 / fact 8"
    by (simp add: abs_mult power_abs)
  also have "\<dots> \<le> 1 * \<bar>u\<bar> ^ 8 / fact 8"
    by (intro divide_right_mono mult_right_mono) simp_all
  also have "\<dots> = \<bar>u\<bar> ^ 8 / 40320" by (simp add: fact_numeral)
  finally show ?thesis by (simp only: poly)
qed

lemma pow_quarter:
  fixes u :: real
  assumes "\<bar>u\<bar> \<le> 1 / 4"
  shows "\<bar>u\<bar> ^ 7 \<le> 1 / 16384" "\<bar>u\<bar> ^ 8 \<le> 1 / 65536"
proof -
  have "\<bar>u\<bar> ^ 7 \<le> (1 / 4) ^ 7" using assms by (intro power_mono) simp_all
  then show "\<bar>u\<bar> ^ 7 \<le> 1 / 16384" by (simp add: power_divide)
  have "\<bar>u\<bar> ^ 8 \<le> (1 / 4) ^ 8" using assms by (intro power_mono) simp_all
  then show "\<bar>u\<bar> ^ 8 \<le> 1 / 65536" by (simp add: power_divide)
qed

lemma rep_isin: "rep I u \<Longrightarrow> rep (isin I) (sin u)"
proof (cases "small I")
  case True
  assume r: "rep I u"
  let ?p = "u * (1 + u * u * (- 1 / 6 + u * u * (1 / 120)))"
  have c3: "rep (Iv (- 2796203) (- 2796202)) (- 1 / 6)" by (simp add: SC_def)
  have c5: "rep (Iv 139810 139811) (1 / 120)" by (simp add: SC_def)
  have y: "rep (imul I I) (u * u)" by (rule rep_imul [OF r r])
  have p: "rep (imul I (iadd ione (imul (imul I I) (iadd (Iv (- 2796203) (- 2796202))
                 (imul (imul I I) (Iv 139810 139811)))))) ?p"
    by (intro rep_imul rep_iadd r y rep_ione c3 c5)
  have "\<bar>sin u - ?p\<bar> \<le> \<bar>u\<bar> ^ 7 / 5040" by (rule sin_taylor5)
  also have "\<dots> \<le> (1 / 16384) / 5040"
    using pow_quarter(1) [OF small_abs [OF True r]] by (intro divide_right_mono) simp_all
  finally have "\<bar>sin u - ?p\<bar> * SC \<le> (1 / 16384) / 5040 * SC"
    using SC_pos by (intro mult_right_mono) simp_all
  also have "\<dots> \<le> of_int 1" by (simp add: SC_def)
  finally have "rep (widen 1 (imul I (iadd ione (imul (imul I I) (iadd (Iv (- 2796203) (- 2796202))
                 (imul (imul I I) (Iv 139810 139811))))))) (sin u)"
    by (rule rep_widen_err [OF p])
  with True show ?thesis by (simp add: isin_def sin_poly_def)
next
  case False
  then show ?thesis by (simp add: isin_def rep_unit)
qed

lemma rep_icos: "rep I u \<Longrightarrow> rep (icos I) (cos u)"
proof (cases "small I")
  case True
  assume r: "rep I u"
  let ?p = "1 + u * u * (- 1 / 2 + u * u * (1 / 24 + u * u * (- 1 / 720)))"
  have c2: "rep (Iv (- 8388608) (- 8388608)) (- 1 / 2)" by (simp add: SC_def)
  have c4: "rep (Iv 699050 699051) (1 / 24)" by (simp add: SC_def)
  have c6: "rep (Iv (- 23302) (- 23301)) (- 1 / 720)" by (simp add: SC_def)
  have y: "rep (imul I I) (u * u)" by (rule rep_imul [OF r r])
  have p: "rep (iadd ione (imul (imul I I) (iadd (Iv (- 8388608) (- 8388608))
                (imul (imul I I) (iadd (Iv 699050 699051) (imul (imul I I) (Iv (- 23302) (- 23301)))))))) ?p"
    by (intro rep_imul rep_iadd y rep_ione c2 c4 c6)
  have "\<bar>cos u - ?p\<bar> \<le> \<bar>u\<bar> ^ 8 / 40320" by (rule cos_taylor6)
  also have "\<dots> \<le> (1 / 65536) / 40320"
    using pow_quarter(2) [OF small_abs [OF True r]] by (intro divide_right_mono) simp_all
  finally have "\<bar>cos u - ?p\<bar> * SC \<le> (1 / 65536) / 40320 * SC"
    using SC_pos by (intro mult_right_mono) simp_all
  also have "\<dots> \<le> of_int 1" by (simp add: SC_def)
  finally have "rep (widen 1 (iadd ione (imul (imul I I) (iadd (Iv (- 8388608) (- 8388608))
                (imul (imul I I) (iadd (Iv 699050 699051) (imul (imul I I) (Iv (- 23302) (- 23301))))))))) (cos u)"
    by (rule rep_widen_err [OF p])
  with True show ?thesis by (simp add: icos_def cos_poly_def)
next
  case False
  then show ?thesis by (simp add: icos_def rep_unit)
qed

subsection \<open>One stage of the integrator\<close>

lemma rep_consts:
  "rep c_tenth (1 / 10)" "rep c_ml (1 / 20)" "rep c_Mm (11 / 10)" "rep c_mg (981 / 1000)"
  "rep c_Mmg (10791 / 1000)" "rep h_half (1 / 200)" "rep h_full (1 / 100)"
  "rep h_sixth (1 / 600)"
  by (simp_all add: c_tenth_def c_ml_def c_Mm_def c_mg_def c_Mmg_def h_half_def h_full_def
      h_sixth_def SC_def)

lemma rep_two: "rep I u \<Longrightarrow> rep (iscale 2 I) (2 * u)"
  using rep_iscale [of I u 2] by simp

lemma denom_PARAMS: "denom PARAMS th = 11 / 10 - 1 / 10 * (cos th * cos th)"
  by (simp add: denom_def PARAMS_def)

lemma xDDot_alg:
  fixes u v w sn cs D :: real
  shows "(u - 1 / 10 * v + 1 / 10 * (1 / 2) * w * w * sn - 1 / 10 * (981 / 100) * sn * cs) / D
       = (u + (1 / 20 * (w * w * sn) - 1 / 10 * v) - 981 / 1000 * (sn * cs)) * (1 / D)"
  by (cases "D = 0") (simp_all add: field_simps)

lemma thetaDDot_alg:
  fixes u v w sn cs D :: real
  shows "((1 + 1 / 10) * (981 / 100) * sn - cs * (u - 1 / 10 * v + 1 / 10 * (1 / 2) * w * w * sn))
           / (1 / 2 * D)
       = 2 * ((10791 / 1000 * sn - cs * (1 / 20 * (w * w * sn) - 1 / 10 * v)) * (1 / D))
         - u * (2 * (cs * (1 / D)))"
  by (cases "D = 0") (simp_all add: field_simps)

lemma PARAMS_fields:
  "M PARAMS = 1" "m PARAMS = 1 / 10" "l PARAMS = 1 / 2" "g PARAMS = 981 / 100"
  "dt PARAMS = 1 / 100" "friction PARAMS = 1 / 10"
  by (simp_all add: PARAMS_def)

lemma xDDot_PARAMS:
  "k_xDDot (computeDerivatives PARAMS s u)
     = (u + friction_part s - 981 / 1000 * (sin (theta s) * cos (theta s)))
       * (1 / denom PARAMS (theta s))"
  using xDDot_alg [of u "xDot s" "thetaDot s" "sin (theta s)" "cos (theta s)"
      "denom PARAMS (theta s)"]
  by (simp add: computeDerivatives_def Let_def friction_part_def PARAMS_fields)

lemma thetaDDot_PARAMS:
  "k_thetaDDot (computeDerivatives PARAMS s u) = slopeP s - u * slopeQ s"
  using thetaDDot_alg [of "sin (theta s)" "cos (theta s)" u "xDot s" "thetaDot s"
      "denom PARAMS (theta s)"]
  by (simp add: computeDerivatives_def Let_def friction_part_def slopeP_def slopeQ_def
      PARAMS_fields)

lemma istage_sound:
  assumes U: "rep U u" and B: "inbox B s"
  shows "inslope (istage U B) s u"
proof -
  from B have bv: "rep (pv B) (xDot s)" and bt: "rep (pt B) (theta s)"
    and bw: "rep (pw B) (thetaDot s)"
    by (simp_all add: inbox_def)
  let ?sn = "isin (pt B)" and ?cs = "icos (pt B)"
  let ?idn = "iinv (isub c_Mm (imul c_tenth (imul ?cs ?cs)))"
  let ?fp = "isub (imul c_ml (imul (imul (pw B) (pw B)) ?sn)) (imul c_tenth (pv B))"
  let ?kp = "iscale 2 (imul (isub (imul c_Mmg ?sn) (imul ?cs ?fp)) ?idn)"
  let ?kq = "iscale 2 (imul ?cs ?idn)"
  have sn: "rep ?sn (sin (theta s))" by (rule rep_isin [OF bt])
  have cs: "rep ?cs (cos (theta s))" by (rule rep_icos [OF bt])
  have idn: "rep ?idn (1 / denom PARAMS (theta s))"
    unfolding denom_PARAMS by (intro rep_iinv rep_isub rep_imul rep_consts cs)
  have fp: "rep ?fp (friction_part s)"
    unfolding friction_part_def by (intro rep_isub rep_imul rep_consts bw sn bv)
  have kp: "rep ?kp (slopeP s)"
    unfolding slopeP_def by (intro rep_two rep_imul rep_isub rep_consts sn cs fp idn)
  have kq: "rep ?kq (slopeQ s)"
    unfolding slopeQ_def by (intro rep_two rep_imul cs idn)
  have ka: "rep (imul (isub (iadd U ?fp) (imul c_mg (imul ?sn ?cs))) ?idn)
              (k_xDDot (computeDerivatives PARAMS s u))"
    unfolding xDDot_PARAMS by (intro rep_imul rep_isub rep_iadd rep_consts U fp sn cs idn)
  have kt: "rep (isub ?kp (imul U ?kq)) (k_thetaDDot (computeDerivatives PARAMS s u))"
    unfolding thetaDDot_PARAMS by (intro rep_isub rep_imul U kp kq)
  from ka kt kp kq show ?thesis by (simp add: inslope_def istage_def Let_def)
qed

subsection \<open>One step\<close>

lemma advance_sel:
  "x (advance c s k) = x s + c * k_xDot k" "xDot (advance c s k) = xDot s + c * k_xDDot k"
  "theta (advance c s k) = theta s + c * k_thetaDot k"
  "thetaDot (advance c s k) = thetaDot s + c * k_thetaDDot k"
  by (simp_all add: advance_def)

lemma passed_through:
  "k_xDot (computeDerivatives p s u) = xDot s"
  "k_thetaDot (computeDerivatives p s u) = thetaDot s"
  by (simp_all add: computeDerivatives_def Let_def)

lemma rk4Step_stages:
  "rk4Step p s u h =
     (let k1 = computeDerivatives p s u;
          k2 = computeDerivatives p (advance (h / 2) s k1) u;
          k3 = computeDerivatives p (advance (h / 2) s k2) u;
          k4 = computeDerivatives p (advance h s k3) u
      in \<lparr>x = x s + (k_xDot k1 + 2 * k_xDot k2 + 2 * k_xDot k3 + k_xDot k4) * h / 6,
          xDot = xDot s + (k_xDDot k1 + 2 * k_xDDot k2 + 2 * k_xDDot k3 + k_xDDot k4) * h / 6,
          theta = theta s
                    + (k_thetaDot k1 + 2 * k_thetaDot k2 + 2 * k_thetaDot k3 + k_thetaDot k4)
                      * h / 6,
          thetaDot = thetaDot s
                    + (k_thetaDDot k1 + 2 * k_thetaDDot k2 + 2 * k_thetaDDot k3
                         + k_thetaDDot k4) * h / 6,
          integral = integral s + theta s * h,
          time = time s + h\<rparr>)"
  by (simp add: rk4Step_def advance_def Let_def mult.commute)

lemma iadvance_sound:
  assumes c: "rep C c" and B: "inbox B s" and F: "inbox F f" and K: "inslope K f u"
  shows "inbox (iadvance C B F K) (advance c s (computeDerivatives PARAMS f u))"
proof -
  from B have b: "rep (px B) (x s)" "rep (pv B) (xDot s)" "rep (pt B) (theta s)"
    "rep (pw B) (thetaDot s)" by (simp_all add: inbox_def)
  from F have f: "rep (pv F) (xDot f)" "rep (pw F) (thetaDot f)" by (simp_all add: inbox_def)
  from K have k: "rep (ka K) (k_xDDot (computeDerivatives PARAMS f u))"
    "rep (kt K) (k_thetaDDot (computeDerivatives PARAMS f u))" by (simp_all add: inslope_def)
  show ?thesis
    unfolding inbox_def iadvance_def ibox.sel advance_sel passed_through
    by (intro conjI rep_iadd rep_imul c b f k)
qed

lemma rep_icomb:
  assumes "rep A a" "rep B b" "rep C c" "rep D d"
  shows "rep (icomb A B C D) ((a + 2 * b + 2 * c + d) * (1 / 100) / 6)"
proof -
  have "rep (icomb A B C D) (1 / 600 * ((a + 2 * b) + (2 * c + d)))"
    unfolding icomb_def by (intro rep_imul rep_iadd rep_two rep_consts assms)
  moreover have "1 / 600 * ((a + 2 * b) + (2 * c + d)) = (a + 2 * b + 2 * c + d) * (1 / 100) / 6"
    by (simp add: add.assoc)
  ultimately show ?thesis by (simp only:)
qed

lemma rep_iclamp: "rep I v \<Longrightarrow> rep (iclamp I) (max (- 50) (min 50 v))"
proof (cases I)
  case (Iv a b)
  assume "rep I v"
  with Iv have v: "of_int a \<le> v * SC" "v * SC \<le> of_int b" by simp_all
  have eq: "max (- 50) (min 50 v) * SC = max (- 838860800) (min 838860800 (v * SC))"
    by (simp add: SC_def max_def min_def)
  have lo: "real_of_int (max (- 838860800) (min 838860800 a))
              = max (- 838860800) (min 838860800 (real_of_int a))"
    by (simp add: max_def min_def)
  have hi: "real_of_int (max (- 838860800) (min 838860800 b))
              = max (- 838860800) (min 838860800 (real_of_int b))"
    by (simp add: max_def min_def)
  from v show ?thesis unfolding Iv iclamp.simps rep.simps eq lo hi
    by (auto simp add: max_def min_def)
next
  case Any
  have "- 50 \<le> max (- 50) (min 50 v)" "max (- 50) (min 50 v) \<le> 50" by simp_all
  then have "- 50 * SC \<le> max (- 50) (min 50 v) * SC" "max (- 50) (min 50 v) * SC \<le> 50 * SC"
    using SC_pos by (simp_all only: mult_le_cancel_right_pos)
  with Any show ?thesis by (simp add: SC_def)
qed

lemma unsat_exact: "unsat I \<Longrightarrow> rep I v \<Longrightarrow> max (- 50) (min 50 v) = v"
  by (cases I) (auto simp add: SC_def max_def min_def)

lemma feedback_alg:
  fixes w th G H p1 p2 p3 p4 q1 q2 q3 q4 u :: real
  assumes "u = 50 * th + 20 * w"
  shows "w + ((p1 - u * q1) + 2 * (p2 - u * q2) + 2 * (p3 - u * q3) + (p4 - u * q4))
               * (1 / 100) / 6
       = w * (1 - 20 * ((q1 + 2 * q2 + 2 * q3 + q4) * (1 / 100) / 6))
         - (50 * th) * ((q1 + 2 * q2 + 2 * q3 + q4) * (1 / 100) / 6)
         + (p1 + 2 * p2 + 2 * p3 + p4) * (1 / 100) / 6"
  unfolding assms by (simp add: field_simps)

lemma istep_sound:
  assumes B: "inbox B s" and gs: "Kp gs = 50" "Ki gs = 0" "Kd gs = 20"
  shows "inbox (istep B) (rk4Step PARAMS s (computeControl gs s) (dt PARAMS))"
proof -
  define v where "v = 50 * theta s + 20 * thetaDot s"
  define u where "u = computeControl gs s"
  define k1 where "k1 = computeDerivatives PARAMS s u"
  define s2 where "s2 = advance (1 / 200) s k1"
  define k2 where "k2 = computeDerivatives PARAMS s2 u"
  define s3 where "s3 = advance (1 / 200) s k2"
  define k3 where "k3 = computeDerivatives PARAMS s3 u"
  define s4 where "s4 = advance (1 / 100) s k3"
  define k4 where "k4 = computeDerivatives PARAMS s4 u"
  define V where "V = iadd (iscale 50 (pt B)) (iscale 20 (pw B))"
  define U where "U = iclamp V"
  define K1 where "K1 = istage U B"
  define B2 where "B2 = iadvance h_half B B K1"
  define K2 where "K2 = istage U B2"
  define B3 where "B3 = iadvance h_half B B2 K2"
  define K3 where "K3 = istage U B3"
  define B4 where "B4 = iadvance h_full B B3 K3"
  define K4 where "K4 = istage U B4"
  from B have b: "rep (px B) (x s)" "rep (pv B) (xDot s)" "rep (pt B) (theta s)"
    "rep (pw B) (thetaDot s)" by (simp_all add: inbox_def)
  have u_v: "u = max (- 50) (min 50 v)"
    by (simp add: u_def v_def computeControl_def gs Let_def)
  have rV: "rep V v"
    unfolding V_def v_def using rep_iscale [OF b(3), of 50] rep_iscale [OF b(4), of 20]
    by (intro rep_iadd) simp_all
  have rU: "rep U u" unfolding U_def u_v by (rule rep_iclamp [OF rV])
  have i1: "inslope K1 s u" unfolding K1_def by (rule istage_sound [OF rU B])
  have b2: "inbox B2 s2"
    unfolding B2_def s2_def k1_def by (rule iadvance_sound [OF rep_consts(6) B B i1])
  have i2: "inslope K2 s2 u" unfolding K2_def by (rule istage_sound [OF rU b2])
  have b3: "inbox B3 s3"
    unfolding B3_def s3_def k2_def by (rule iadvance_sound [OF rep_consts(6) B b2 i2])
  have i3: "inslope K3 s3 u" unfolding K3_def by (rule istage_sound [OF rU b3])
  have b4: "inbox B4 s4"
    unfolding B4_def s4_def k3_def by (rule iadvance_sound [OF rep_consts(7) B b3 i3])
  have i4: "inslope K4 s4 u" unfolding K4_def by (rule istage_sound [OF rU b4])
  have step: "rk4Step PARAMS s u (dt PARAMS) =
      \<lparr>x = x s + (k_xDot k1 + 2 * k_xDot k2 + 2 * k_xDot k3 + k_xDot k4) * (1 / 100) / 6,
       xDot = xDot s + (k_xDDot k1 + 2 * k_xDDot k2 + 2 * k_xDDot k3 + k_xDDot k4) * (1 / 100) / 6,
       theta = theta s
                 + (k_thetaDot k1 + 2 * k_thetaDot k2 + 2 * k_thetaDot k3 + k_thetaDot k4)
                   * (1 / 100) / 6,
       thetaDot = thetaDot s
                 + (k_thetaDDot k1 + 2 * k_thetaDDot k2 + 2 * k_thetaDDot k3
                      + k_thetaDDot k4) * (1 / 100) / 6,
       integral = integral s + theta s * (1 / 100),
       time = time s + 1 / 100\<rparr>"
    unfolding rk4Step_stages Let_def PARAMS_fields k1_def k2_def k3_def k4_def s2_def s3_def s4_def
    by simp
  have vel: "k_xDot k1 = xDot s" "k_xDot k2 = xDot s2" "k_xDot k3 = xDot s3" "k_xDot k4 = xDot s4"
    "k_thetaDot k1 = thetaDot s" "k_thetaDot k2 = thetaDot s2" "k_thetaDot k3 = thetaDot s3"
    "k_thetaDot k4 = thetaDot s4"
    by (simp_all add: k1_def k2_def k3_def k4_def passed_through)
  from b2 b3 b4 have bs: "rep (pv B2) (xDot s2)" "rep (pv B3) (xDot s3)" "rep (pv B4) (xDot s4)"
    "rep (pw B2) (thetaDot s2)" "rep (pw B3) (thetaDot s3)" "rep (pw B4) (thetaDot s4)"
    by (simp_all add: inbox_def)
  from i1 i2 i3 i4 have ks:
    "rep (ka K1) (k_xDDot k1)" "rep (ka K2) (k_xDDot k2)" "rep (ka K3) (k_xDDot k3)"
    "rep (ka K4) (k_xDDot k4)"
    "rep (kt K1) (k_thetaDDot k1)" "rep (kt K2) (k_thetaDDot k2)" "rep (kt K3) (k_thetaDDot k3)"
    "rep (kt K4) (k_thetaDDot k4)"
    "rep (kp K1) (slopeP s)" "rep (kp K2) (slopeP s2)" "rep (kp K3) (slopeP s3)"
    "rep (kp K4) (slopeP s4)"
    "rep (kq K1) (slopeQ s)" "rep (kq K2) (slopeQ s2)" "rep (kq K3) (slopeQ s3)"
    "rep (kq K4) (slopeQ s4)"
    by (simp_all add: inslope_def k1_def k2_def k3_def k4_def)
  have fx: "rep (iadd (px B) (icomb (pv B) (pv B2) (pv B3) (pv B4)))
              (x s + (k_xDot k1 + 2 * k_xDot k2 + 2 * k_xDot k3 + k_xDot k4) * (1 / 100) / 6)"
    unfolding vel by (intro rep_iadd rep_icomb b bs)
  have fv: "rep (iadd (pv B) (icomb (ka K1) (ka K2) (ka K3) (ka K4)))
              (xDot s + (k_xDDot k1 + 2 * k_xDDot k2 + 2 * k_xDDot k3 + k_xDDot k4) * (1 / 100) / 6)"
    by (intro rep_iadd rep_icomb b ks)
  have ft: "rep (iadd (pt B) (icomb (pw B) (pw B2) (pw B3) (pw B4)))
              (theta s + (k_thetaDot k1 + 2 * k_thetaDot k2 + 2 * k_thetaDot k3 + k_thetaDot k4)
                          * (1 / 100) / 6)"
    unfolding vel by (intro rep_iadd rep_icomb b bs)
  let ?w' = "thetaDot s + (k_thetaDDot k1 + 2 * k_thetaDDot k2 + 2 * k_thetaDDot k3
                             + k_thetaDDot k4) * (1 / 100) / 6"
  have fw_plain: "rep (iadd (pw B) (icomb (kt K1) (kt K2) (kt K3) (kt K4))) ?w'"
    by (intro rep_iadd rep_icomb b ks)
  have fw_fb: "rep (iadd (isub (imul (pw B) (isub ione (iscale 20 (icomb (kq K1) (kq K2) (kq K3) (kq K4)))))
                             (imul (iscale 50 (pt B)) (icomb (kq K1) (kq K2) (kq K3) (kq K4))))
                       (icomb (kp K1) (kp K2) (kp K3) (kp K4))) ?w'"
    if ok: "unsat V"
  proof -
    from unsat_exact [OF ok rV] u_v have uv: "u = 50 * theta s + 20 * thetaDot s"
      by (simp add: v_def)
    have th: "k_thetaDDot k1 = slopeP s - u * slopeQ s" "k_thetaDDot k2 = slopeP s2 - u * slopeQ s2"
      "k_thetaDDot k3 = slopeP s3 - u * slopeQ s3" "k_thetaDDot k4 = slopeP s4 - u * slopeQ s4"
      by (simp_all only: k1_def k2_def k3_def k4_def thetaDDot_PARAMS)
    let ?G = "(slopeQ s + 2 * slopeQ s2 + 2 * slopeQ s3 + slopeQ s4) * (1 / 100) / 6"
    let ?H = "(slopeP s + 2 * slopeP s2 + 2 * slopeP s3 + slopeP s4) * (1 / 100) / 6"
    have G: "rep (icomb (kq K1) (kq K2) (kq K3) (kq K4)) ?G" by (intro rep_icomb ks)
    have H: "rep (icomb (kp K1) (kp K2) (kp K3) (kp K4)) ?H" by (intro rep_icomb ks)
    have t50: "rep (iscale 50 (pt B)) (50 * theta s)" using rep_iscale [OF b(3), of 50] by simp
    have g20: "rep (iscale 20 (icomb (kq K1) (kq K2) (kq K3) (kq K4))) (20 * ?G)"
      using rep_iscale [OF G, of 20] by simp
    have "rep (iadd (isub (imul (pw B) (isub ione (iscale 20 (icomb (kq K1) (kq K2) (kq K3) (kq K4)))))
                          (imul (iscale 50 (pt B)) (icomb (kq K1) (kq K2) (kq K3) (kq K4))))
                    (icomb (kp K1) (kp K2) (kp K3) (kp K4)))
              (thetaDot s * (1 - 20 * ?G) - (50 * theta s) * ?G + ?H)"
      by (intro rep_iadd rep_isub rep_imul rep_ione b t50 g20 G H)
    moreover have "?w' = thetaDot s * (1 - 20 * ?G) - (50 * theta s) * ?G + ?H"
      unfolding th by (rule feedback_alg [OF uv])
    ultimately show ?thesis by (simp only:)
  qed
  have unfold: "istep B = ifinish (unsat V) B B2 B3 B4 K1 K2 K3 K4"
    by (simp add: istep_def Let_def V_def U_def K1_def B2_def K2_def B3_def K3_def B4_def K4_def)
  show ?thesis
    unfolding unfold u_def [symmetric] step
    using fx fv ft fw_plain fw_fb
    by (simp add: inbox_def ifinish_def Let_def)
qed

subsection \<open>Checked runs\<close>

lemma below_abs: "below c I \<Longrightarrow> rep I r \<Longrightarrow> \<bar>r\<bar> * SC < of_int c"
  by (cases I) (auto simp add: abs_if)

lemma safe_bounds:
  assumes "safe B" "inbox B s"
  shows "\<bar>theta s\<bar> < 3 / 2" "\<bar>x s\<bar> < 5 / 2"
proof -
  from assms have "below 25165824 (pt B)" "rep (pt B) (theta s)"
    "below 41943040 (px B)" "rep (px B) (x s)"
    by (simp_all add: safe_def inbox_def)
  then have "\<bar>theta s\<bar> * SC < of_int 25165824" "\<bar>x s\<bar> * SC < of_int 41943040"
    by (blast intro: below_abs)+
  then show "\<bar>theta s\<bar> < 3 / 2" "\<bar>x s\<bar> < 5 / 2" by (simp_all add: SC_def)
qed

lemma subStep_state:
  "state (subStep d) = rk4Step PARAMS (state d) (computeControl (gains d) (state d)) (dt PARAMS)"
  "gains (subStep d) = gains d"
  by (simp_all add: subStep_def Let_def)

lemma subSteps_gains: "gains (subSteps n d) = gains d"
  by (induction n arbitrary: d) (simp_all add: subStep_state)

lemma subSteps_add: "subSteps (j + k) d = subSteps k (subSteps j d)"
  by (induction j arbitrary: d) simp_all

lemma run_to_sound:
  assumes "run_to n B = Some B'" "inbox B (state d)" "tuned d"
  shows "inbox B' (state (subSteps n d))
         \<and> (\<forall>k\<le>n. \<bar>theta (state (subSteps k d))\<bar> < 3 / 2 \<and> \<bar>x (state (subSteps k d))\<bar> < 5 / 2)"
  using assms
proof (induction n arbitrary: B d)
  case 0
  then have "safe B" "B' = B" by (simp_all split: if_splits)
  with 0 safe_bounds [of B "state d"] show ?case by simp
next
  case (Suc n)
  from Suc.prems(1) have sf: "safe B" and rest: "run_to n (istep B) = Some B'"
    by (simp_all split: if_splits)
  from Suc.prems(3) have g: "Kp (gains d) = 50" "Ki (gains d) = 0" "Kd (gains d) = 20"
    by (simp_all add: tuned_def)
  have nxt: "inbox (istep B) (state (subStep d))"
    unfolding subStep_state by (rule istep_sound [OF Suc.prems(2) g])
  have tn: "tuned (subStep d)" using Suc.prems(3) by (simp add: tuned_def subStep_state)
  from Suc.IH [OF rest nxt tn]
  have fin: "inbox B' (state (subSteps n (subStep d)))"
    and later: "\<And>k. k \<le> n \<Longrightarrow> \<bar>theta (state (subSteps k (subStep d)))\<bar> < 3 / 2
                               \<and> \<bar>x (state (subSteps k (subStep d)))\<bar> < 5 / 2"
    by simp_all
  have "\<bar>theta (state (subSteps k d))\<bar> < 3 / 2 \<and> \<bar>x (state (subSteps k d))\<bar> < 5 / 2"
    if "k \<le> Suc n" for k
  proof (cases k)
    case 0
    with safe_bounds [OF sf Suc.prems(2)] show ?thesis by simp
  next
    case (Suc j)
    with that have "j \<le> n" by simp
    from later [OF this] Suc show ?thesis by simp
  qed
  with fin show ?case by simp
qed

lemma run_to_append:
  "run_to j B = Some B1 \<Longrightarrow> run_to k B1 = Some B2 \<Longrightarrow> run_to (j + k) B = Some B2"
proof (induction j arbitrary: B)
  case 0
  then have "B1 = B" by (simp split: if_splits)
  with 0 show ?case by simp
next
  case (Suc j)
  then show ?case by (simp split: if_splits)
qed

subsection \<open>The initial angle\<close>

text \<open>
  \<open>sin (pi / 6) = 1 / 2\<close> and the sine is increasing there, so two evaluations of its
  Taylor polynomial enclose \<open>pi\<close>.
\<close>

lemma sin_coeffs_more:
  "sin_coeff 7 = - 1 / 5040" "sin_coeff 8 = 0" "sin_coeff 9 = 1 / 362880" "sin_coeff 10 = 0"
  by (simp_all add: sin_coeff_def fact_numeral)

lemma below11: "{..<11::nat} = {0, 1, 2, 3, 4, 5, 6, 7, 8, 9, 10}"
proof -
  have "k < 11 \<longleftrightarrow> k \<in> {0, 1, 2, 3, 4, 5, 6, 7, 8, 9, 10}" for k :: nat
    by (simp only: insert_iff empty_iff) presburger
  then show ?thesis by (intro set_eqI) (simp only: lessThan_iff)
qed

lemma sin_taylor9:
  fixes u :: real
  shows "\<bar>sin u - (u - u ^ 3 / 6 + u ^ 5 / 120 - u ^ 7 / 5040 + u ^ 9 / 362880)\<bar>
           \<le> \<bar>u\<bar> ^ 11 / 39916800"
proof -
  have poly: "(\<Sum>k<11. sin_coeff k * u ^ k)
                = u - u ^ 3 / 6 + u ^ 5 / 120 - u ^ 7 / 5040 + u ^ 9 / 362880"
    by (simp add: below11 sin_coeffs sin_coeffs_more sin_coeff_Suc0)
  have "fact 11 = (39916800::real)" by (simp add: fact_numeral)
  then have rest: "inverse (fact 11) * \<bar>u\<bar> ^ 11 = \<bar>u\<bar> ^ 11 / 39916800"
    by (simp only: inverse_eq_divide times_divide_eq_left mult_1)
  from Maclaurin_sin_bound [of u 11] show ?thesis by (simp only: poly rest)
qed

lemma sin_below_half: "sin (5235987 / 10000000 :: real) < 1 / 2"
proof -
  let ?a = "5235987 / 10000000 :: real"
  have "sin ?a \<le> (?a - ?a ^ 3 / 6 + ?a ^ 5 / 120 - ?a ^ 7 / 5040 + ?a ^ 9 / 362880)
                    + \<bar>?a\<bar> ^ 11 / 39916800"
    using sin_taylor9 [of ?a] by (simp only: abs_le_iff) linarith
  also have "\<dots> < 1 / 2" by (simp add: power_divide)
  finally show ?thesis .
qed

lemma sin_above_half: "1 / 2 < sin (5235988 / 10000000 :: real)"
proof -
  let ?b = "5235988 / 10000000 :: real"
  have "1 / 2 < (?b - ?b ^ 3 / 6 + ?b ^ 5 / 120 - ?b ^ 7 / 5040 + ?b ^ 9 / 362880)
                    - \<bar>?b\<bar> ^ 11 / 39916800"
    by (simp add: power_divide)
  also have "\<dots> \<le> sin ?b"
    using sin_taylor9 [of ?b] by (simp only: abs_le_iff) linarith
  finally show ?thesis .
qed

lemma pi_bounds: "31415922 / 10000000 < pi" "pi < 31415928 / 10000000"
proof -
  have half: "1 \<le> pi / 2" using pi_ge_two by simp
  have sixth: "- (pi / 2) \<le> pi / 6" "pi / 6 \<le> pi / 2" using pi_ge_zero by simp_all
  have "sin (5235987 / 10000000 :: real) < sin (pi / 6)"
    using sin_below_half by (simp only: sin_30)
  then have "5235987 / 10000000 < pi / 6"
    using half sixth by (subst (asm) sin_mono_less_eq) simp_all
  then show "31415922 / 10000000 < pi" by simp
  have "sin (pi / 6) < sin (5235988 / 10000000 :: real)"
    using sin_above_half by (simp only: sin_30)
  then have "pi / 6 < 5235988 / 10000000"
    using half sixth by (subst (asm) sin_mono_less_eq) simp_all
  then show "pi < 31415928 / 10000000" by simp
qed

lemma half_pi_above: "3 / 2 < pi / 2"
  using pi_bounds(1) by simp

lemma init_state:
  "state init = \<lparr>x = 0, xDot = 0, theta = 10 * pi / 180, thetaDot = 0, integral = 0, time = 0\<rparr>"
  "gains init = \<lparr>Kp = 50, Ki = 0, Kd = 20\<rparr>" "\<not> isRunning init"
  by (simp_all add: init_def resetState_def)

lemma box0_start:
  "inbox box0 \<lparr>x = 0, xDot = 0, theta = 10 * pi / 180, thetaDot = 0, integral = 0, time = 0\<rparr>"
  using pi_bounds by (simp add: inbox_def box0_def SC_def)

section \<open>The stable scenario\<close>

text \<open>The four legs of the run, computed by rewriting with the defining equations.\<close>

lemma leg1: "run_to 25 box0 = Some box25" by code_simp

lemma leg2: "run_to 25 box25 = Some box50" by code_simp

lemma leg3: "run_to 25 box50 = Some box75" by code_simp

lemma leg4: "run_to 25 box75 = Some box100" by code_simp

lemma run_to_100: "run_to 100 box0 = Some box100"
proof -
  from run_to_append [OF leg1 leg2] have "run_to 50 box0 = Some box50" by simp
  from run_to_append [OF this leg3] have "run_to 75 box0 = Some box75" by simp
  from run_to_append [OF this leg4] show ?thesis by simp
qed

lemma first_second:
  assumes "state d = \<lparr>x = 0, xDot = 0, theta = 10 * pi / 180, thetaDot = 0,
                       integral = 0, time = 0\<rparr>"
    and "gains d = \<lparr>Kp = 50, Ki = 0, Kd = 20\<rparr>" and "n \<le> 100"
  shows "\<bar>theta (state (subSteps n d))\<bar> < 3 / 2" "\<bar>x (state (subSteps n d))\<bar> < 5 / 2"
proof -
  from assms(1) have start: "inbox box0 (state d)" by (simp only: box0_start)
  from assms(2) have "tuned d" by (simp add: tuned_def)
  from run_to_sound [OF run_to_100 start this] assms(3)
  show "\<bar>theta (state (subSteps n d))\<bar> < 3 / 2" "\<bar>x (state (subSteps n d))\<bar> < 5 / 2"
    by simp_all
qed

lemma subSteps_cong:
  "state d = state e \<Longrightarrow> gains d = gains e \<Longrightarrow>
   state (subSteps n d) = state (subSteps n e) \<and> gains (subSteps n d) = gains (subSteps n e)"
proof (induction n arbitrary: d e)
  case 0
  then show ?case by simp
next
  case (Suc n)
  from Suc.prems have "state (subStep d) = state (subStep e)" "gains (subStep d) = gains (subStep e)"
    by (simp_all add: subStep_state)
  from Suc.IH [OF this] show ?case by simp
qed

lemma run_snoc: "run (es @ [e]) d = handle e (run es d)"
  by (induction es arbitrary: d) simp_all

lemma quiet_tick:
  assumes running: "isRunning d" and queue: "frameQueue d \<noteq> []"
    and th: "\<bar>theta (state (subSteps 2 d))\<bar> < 3 / 2" and xx: "\<bar>x (state (subSteps 2 d))\<bar> < 5 / 2"
  shows "isRunning (handle Frame d) \<and> frameQueue (handle Frame d) \<noteq> []
         \<and> gains (handle Frame d) = gains d \<and> state (handle Frame d) = state (subSteps 2 d)"
proof -
  obtain h hs where q: "frameQueue d = h # hs" using queue by (cases "frameQueue d") auto
  define e where "e = d\<lparr>frameQueue := hs\<rparr>"
  have tick: "handle Frame d = simulate e" by (simp add: q e_def)
  have same: "state e = state d" "gains e = gains d" "isRunning e" 
    using running by (simp_all add: e_def)
  from subSteps_cong [OF same(1,2), of 2]
  have after: "state (subSteps 2 e) = state (subSteps 2 d)" by simp
  have run2: "isRunning (subSteps 2 e)" using same(3) subSteps_fields [of 2 e] by simp
  have g2: "gains (subSteps 2 e) = gains d" using same(2) by (simp add: subSteps_gains)
  from th after half_pi_above have nofall: "\<not> \<bar>theta (state (subSteps 2 e))\<bar> > pi / 2" by simp
  from xx after have noclamp: "boundCart (state (subSteps 2 e)) = state (subSteps 2 e)"
    by (simp add: boundCart_def)
  from same(3) run2 nofall noclamp
  have sim: "simulate e = requestAnimationFrame ((subSteps 2 e)\<lparr>state := state (subSteps 2 e)\<rparr>)"
    by (simp add: simulate_def Let_def stepsPerFrame_def checkFallen_def)
  show ?thesis
    unfolding tick sim using run2 g2 after by (simp add: requestAnimationFrame_def)
qed

lemma frames_keep_running:
  "k \<le> 50 \<Longrightarrow>
   isRunning (run (StartClick # replicate k Frame) init)
   \<and> frameQueue (run (StartClick # replicate k Frame) init) \<noteq> []
   \<and> gains (run (StartClick # replicate k Frame) init) = gains init
   \<and> state (run (StartClick # replicate k Frame) init) = state (subSteps (2 * k) init)"
proof (induction k)
  case 0
  then show ?case by (simp add: init_state requestAnimationFrame_def)
next
  case (Suc k)
  define d where "d = run (StartClick # replicate k Frame) init"
  from Suc have running: "isRunning d" and queue: "frameQueue d \<noteq> []"
    and gn: "gains d = gains init" and st: "state d = state (subSteps (2 * k) init)"
    by (simp_all add: d_def)
  have "StartClick # replicate (Suc k) Frame = (StartClick # replicate k Frame) @ [Frame]"
    by (simp add: replicate_append_same)
  then have unroll: "run (StartClick # replicate (Suc k) Frame) init = handle Frame d"
    by (simp only: run_snoc d_def)
  have "gains d = gains (subSteps (2 * k) init)" using gn by (simp add: subSteps_gains)
  from subSteps_cong [OF st this, of 2] subSteps_add [of "2 * k" 2 init]
  have after: "state (subSteps 2 d) = state (subSteps (2 * Suc k) init)" by simp
  from Suc.prems have "2 * Suc k \<le> 100" by simp
  from first_second [OF init_state(1,2) this] after
  have "\<bar>theta (state (subSteps 2 d))\<bar> < 3 / 2" "\<bar>x (state (subSteps 2 d))\<bar> < 5 / 2"
    by simp_all
  from quiet_tick [OF running queue this] gn after show ?case
    unfolding unroll by simp
qed

text \<open>
  C9. From the state with \<open>theta\<close> = 10 degrees and \<open>x\<close>, \<open>xDot\<close>, \<open>thetaDot\<close>,
  \<open>integral\<close>, \<open>time\<close> all 0, with gains \<open>Kp = 50\<close>, \<open>Ki = 0\<close>, \<open>Kd = 20\<close>, every one
  of the first 100 controller-then-integrator steps at \<open>dt = 0.01\<close> ends with
  \<open>|theta| < pi / 2\<close>. The script starts in this state: the run started there by the
  start command is still running after each of its first 50 frames (two steps per
  frame), and its state is the state of the loop, so neither the track limit nor the
  fall check fires.
\<close>

theorem stable_for_one_second:
  "(state d = \<lparr>x = 0, xDot = 0, theta = 10 * pi / 180, thetaDot = 0, integral = 0, time = 0\<rparr>
      \<and> gains d = \<lparr>Kp = 50, Ki = 0, Kd = 20\<rparr> \<and> n \<le> 100
    \<longrightarrow> \<bar>theta (state (subSteps n d))\<bar> < pi / 2)
   \<and> (k \<le> 50 \<longrightarrow>
        isRunning (run (StartClick # replicate k Frame) init)
        \<and> state (run (StartClick # replicate k Frame) init) = state (subSteps (2 * k) init))"
proof -
  have "\<bar>theta (state (subSteps n d))\<bar> < pi / 2"
    if "state d = \<lparr>x = 0, xDot = 0, theta = 10 * pi / 180, thetaDot = 0,
                     integral = 0, time = 0\<rparr>"
      and "gains d = \<lparr>Kp = 50, Ki = 0, Kd = 20\<rparr>" and "n \<le> 100"
    using first_second(1) [OF that] half_pi_above by simp
  with frames_keep_running [of k] show ?thesis by blast
qed

theorem stable_for_one_second_witness:
  "state init = \<lparr>x = 0, xDot = 0, theta = 10 * pi / 180, thetaDot = 0, integral = 0, time = 0\<rparr>
   \<and> gains init = \<lparr>Kp = 50, Ki = 0, Kd = 20\<rparr> \<and> (100::nat) \<le> 100
   \<and> \<bar>theta (state (subSteps 100 init))\<bar> < pi / 2
   \<and> (50::nat) \<le> 50 \<and> isRunning (run (StartClick # replicate 50 Frame) init)"
  using stable_for_one_second [of init 100 50] init_state by simp

end
